theory Spec2Isabelle
  imports Main "HOL-Library.Multiset" "HOL-Library.Product_Lexorder"
begin

section \<open>The data of sniffTraffic.py\<close>

text \<open>
  A calendar date is its day number (an unbounded integer, ordered as the calendar is).
  A timestamp of the traffic API is a date and a time of day; \<open>.dt.date\<close> keeps the date.
\<close>

type_synonym date = int

record api_rec =
  timestamp :: "date \<times> nat"
  count_n :: int
  uniques :: int

record referrer =
  referrer :: string
  ref_count :: int
  ref_uniques :: int

text \<open>
  A cell of a pandas table as this program meets it: a date, a number, a text that is
  neither, or the missing value (NaN, NaT, an empty CSV field). A number is kept as its
  integer value; the float formatting pandas gives a column that holds NaN is left out.
\<close>

datatype cell = DateC date | NumC int | TextC string | NaN

text \<open>A DataFrame: its column index and its rows, each row a list of cells in column order.\<close>

record frame =
  columns :: "string list"
  rows :: "cell list list"

datatype error =
    ConnectionError
  | HTTPError nat
  | KeyError string
  | AttributeError
  | ValueError
  | ParserError
  | FileNotFoundError

text \<open>
  The rendered page: what the template is filled with. The plotly markup and the CSS are
  fixed functions of these inputs and are not spelled out.
\<close>

record html =
  h_owner :: string
  h_repo :: string
  h_page_date :: string
  h_df :: frame
  h_df_ref :: "referrer list"

text \<open>
  A file is the table pandas parses from it (header as the column index, dates of a
  date column as dates), or a page written by \<open>build_dashboard\<close>.
\<close>

datatype content = Table frame | Page html

datatype event =
    Request string string
  | Exists string
  | ReadFile string
  | WriteFile string
  | Print string

text \<open>The world a run acts on: the files of the working directory and what the run did so far.\<close>

record world =
  fs :: "string \<rightharpoonup> content"
  trace :: "event list"

text \<open>
  The hosting platform: what a GET of a URL with a token answers. The two series
  endpoints answer a JSON object (a dict from keys to series), the referrers endpoint a
  JSON list.
\<close>

datatype 'a response = ConnectionFailed | Response nat 'a

record upstream =
  traffic_api :: "string \<Rightarrow> string \<Rightarrow> (string \<rightharpoonup> api_rec list) response"
  referrers_api :: "string \<Rightarrow> string \<Rightarrow> referrer list response"

datatype outcome = Finished | SysExit nat | Uncaught error

section \<open>Constants\<close>

definition BASE_API :: "string \<Rightarrow> string \<Rightarrow> string" where
  "BASE_API owner repo = ''https://api.github.com/repos/'' @ owner @ ''/'' @ repo"

definition CSV_FILE :: string where
  "CSV_FILE = ''traffic_data.csv''"

definition new_columns :: "string list" where
  "new_columns = [''date'', ''clones'', ''clones_uniques'', ''views'', ''views_uniques'']"

section \<open>Effects\<close>

definition log_event :: "event \<Rightarrow> world \<Rightarrow> world" where
  "log_event e w = w\<lparr>trace := trace w @ [e]\<rparr>"

definition print :: "string \<Rightarrow> world \<Rightarrow> world" where
  "print s w = log_event (Print s) w"

definition path_exists :: "string \<Rightarrow> world \<Rightarrow> bool \<times> world" where
  "path_exists p w = (fs w p \<noteq> None, log_event (Exists p) w)"

definition write_file :: "string \<Rightarrow> content \<Rightarrow> world \<Rightarrow> world" where
  "write_file p c w = log_event (WriteFile p) (w\<lparr>fs := (fs w)(p \<mapsto> c)\<rparr>)"

text \<open>\<open>raise_for_status\<close> raises on a status from 400 to 599.\<close>

definition request_json ::
  "(string \<Rightarrow> string \<Rightarrow> 'a response) \<Rightarrow> string \<Rightarrow> string \<Rightarrow> world \<Rightarrow> (error + 'a) \<times> world" where
  "request_json api url token w =
     (let w' = log_event (Request url token) w in
      case api url token of
        ConnectionFailed \<Rightarrow> (Inl ConnectionError, w')
      | Response status body \<Rightarrow>
          if 400 \<le> status \<and> status < 600 then (Inl (HTTPError status), w')
          else (Inr body, w'))"

section \<open>The pandas operations the program uses\<close>

fun col_index :: "string \<Rightarrow> string list \<Rightarrow> nat" where
  "col_index c [] = 0"
| "col_index c (k # ks) = (if k = c then 0 else Suc (col_index c ks))"

definition cell_of :: "string list \<Rightarrow> string \<Rightarrow> cell list \<Rightarrow> cell" where
  "cell_of cols c r = (let i = col_index c cols in if i < length r then r ! i else NaN)"

definition column :: "frame \<Rightarrow> string \<Rightarrow> cell list" where
  "column df c = map (cell_of (columns df) c) (rows df)"

text \<open>
  \<open>pd.DataFrame(records)\<close> followed by \<open>df['date'] = pd.to_datetime(df['timestamp']).dt.date\<close>
  and the selection \<open>df[['date','count','uniques']]\<close>. The frame of an empty list has no
  column, so \<open>df['timestamp']\<close> raises KeyError.
\<close>

definition dated :: "api_rec list \<Rightarrow> error + (date \<times> int \<times> int) list" where
  "dated recs =
     (if recs = [] then Inl (KeyError ''timestamp'')
      else Inr (map (\<lambda>r. (fst (timestamp r), count_n r, uniques r)) recs))"

text \<open>
  \<open>pd.merge(..., on='date', how='outer')\<close>: the keys of both sides in ascending order, and
  for each key the pairs of the left and the right rows that carry it; a key of one side
  only gives that side's rows with the other side's metrics missing.
\<close>

definition merge_rows ::
  "(date \<times> int \<times> int) list \<Rightarrow> (date \<times> int \<times> int) list \<Rightarrow> date \<Rightarrow> cell list list" where
  "merge_rows l r k =
     (let ls = filter (\<lambda>x. fst x = k) l; rs = filter (\<lambda>x. fst x = k) r in
      if rs = [] then map (\<lambda>(d, c, u). [DateC k, NumC c, NumC u, NaN, NaN]) ls
      else if ls = [] then map (\<lambda>(d, c, u). [DateC k, NaN, NaN, NumC c, NumC u]) rs
      else concat (map (\<lambda>(d, c, u). map (\<lambda>(d', c', u'). [DateC k, NumC c, NumC u, NumC c', NumC u']) rs) ls))"

definition merge_outer ::
  "(date \<times> int \<times> int) list \<Rightarrow> (date \<times> int \<times> int) list \<Rightarrow> cell list list" where
  "merge_outer l r = concat (map (merge_rows l r) (sort (remdups (map fst l @ map fst r))))"

text \<open>
  \<open>sort_values('date')\<close>: ascending by date, missing dates last. Rows of equal date keep
  their order here; pandas does not promise that, and nothing below depends on it.
\<close>

definition date_key :: "cell \<Rightarrow> nat \<times> int" where
  "date_key c = (case c of DateC d \<Rightarrow> (0, d) | _ \<Rightarrow> (1, 0))"

definition sort_values :: "frame \<Rightarrow> frame" where
  "sort_values df = df\<lparr>rows := sort_key (\<lambda>r. date_key (cell_of (columns df) ''date'' r)) (rows df)\<rparr>"

text \<open>
  \<open>pd.read_csv(path, parse_dates=['date'])\<close> and \<open>df['date'] = df['date'].dt.date\<close>: a header
  without \<open>date\<close> (a page of \<open>build_dashboard\<close> has none) is a ValueError, a row that
  does not fit the header a ParserError, and a date column that holds a field that is no
  date, or no field at all (a file of a header only), stays a column of objects, on which
  \<open>.dt\<close> raises AttributeError.
\<close>

definition is_date_or_missing :: "cell \<Rightarrow> bool" where
  "is_date_or_missing c = (case c of DateC d \<Rightarrow> True | NaN \<Rightarrow> True | _ \<Rightarrow> False)"

definition read_csv :: "string \<Rightarrow> world \<Rightarrow> (error + frame) \<times> world" where
  "read_csv p w =
     (let w' = log_event (ReadFile p) w in
      case fs w p of
        None \<Rightarrow> (Inl FileNotFoundError, w')
      | Some (Page h) \<Rightarrow> (Inl ValueError, w')
      | Some (Table df) \<Rightarrow>
          if ''date'' \<notin> set (columns df) then (Inl ValueError, w')
          else if \<not> list_all (\<lambda>r. length r = length (columns df)) (rows df) then (Inl ParserError, w')
          else if rows df = [] then (Inl AttributeError, w')
          else if \<not> list_all is_date_or_missing (column df ''date'') then (Inl AttributeError, w')
          else (Inr df, w'))"

text \<open>\<open>df_new[~df_new['date'].isin(df_exist['date'])]\<close>\<close>

definition not_isin :: "frame \<Rightarrow> frame \<Rightarrow> frame" where
  "not_isin df_new df_exist =
     df_new\<lparr>rows := filter (\<lambda>r. cell_of (columns df_new) ''date'' r \<notin> set (column df_exist ''date''))
                         (rows df_new)\<rparr>"

text \<open>
  \<open>pd.concat([a, b], ignore_index=True)\<close>: the columns of \<open>a\<close>, then those of \<open>b\<close> that \<open>a\<close>
  lacks; each row is laid out on them, missing where its frame has no such column.
\<close>

definition reindex :: "string list \<Rightarrow> string list \<Rightarrow> cell list \<Rightarrow> cell list" where
  "reindex cols src r = map (\<lambda>c. if c \<in> set src then cell_of src c r else NaN) cols"

definition concat_frames :: "frame \<Rightarrow> frame \<Rightarrow> frame" where
  "concat_frames a b =
     (let cols = columns a @ filter (\<lambda>c. c \<notin> set (columns a)) (columns b) in
      \<lparr>columns = cols,
       rows = map (reindex cols (columns a)) (rows a) @ map (reindex cols (columns b)) (rows b)\<rparr>)"

section \<open>Decimal text of a length\<close>

definition digit_char :: "nat \<Rightarrow> char" where
  "digit_char d = char_of (48 + d)"

function str_nat :: "nat \<Rightarrow> string" where
  "str_nat n = (if n < 10 then [digit_char n] else str_nat (n div 10) @ [digit_char (n mod 10)])"
  by pat_completeness auto
termination
  by (relation "measure id") auto

declare str_nat.simps [simp del]

section \<open>fetch_and_update_csv\<close>

definition msg_added :: "nat \<Rightarrow> string" where
  "msg_added n = ''Ajout de '' @ str_nat n @ '' nouvelles lignes au CSV : '' @ CSV_FILE"

definition msg_nothing :: string where
  "msg_nothing = ''Aucune nouvelle donn'' @ [CHR 0xE9] @ ''e '' @ [CHR 0xE0] @ '' ajouter au CSV.''"

definition msg_created :: "nat \<Rightarrow> string" where
  "msg_created n = ''CSV cr'' @ [CHR 0xE9, CHR 0xE9] @ '' avec '' @ str_nat n @ '' lignes : '' @ CSV_FILE"

text \<open>Lines 68 to 77: the new-data table of the two fetched series.\<close>

definition new_table :: "api_rec list \<Rightarrow> api_rec list \<Rightarrow> error + frame" where
  "new_table clones views =
     (case dated clones of
        Inl e \<Rightarrow> Inl e
      | Inr df_cl \<Rightarrow>
          (case dated views of
             Inl e \<Rightarrow> Inl e
           | Inr df_vw \<Rightarrow>
               Inr (sort_values \<lparr>columns = new_columns, rows = merge_outer df_cl df_vw\<rparr>)))"

text \<open>Lines 79 to 97: reconciling the new-data table with the file.\<close>

definition update_csv :: "frame \<Rightarrow> world \<Rightarrow> (error + frame) \<times> world" where
  "update_csv df_new w =
     (case path_exists CSV_FILE w of
        (True, w1) \<Rightarrow>
          (case read_csv CSV_FILE w1 of
             (Inl e, w2) \<Rightarrow> (Inl e, w2)
           | (Inr df_exist, w2) \<Rightarrow>
               (let df_append = not_isin df_new df_exist in
                if rows df_append \<noteq> [] then
                  (let df_updated = sort_values (concat_frames df_exist df_append);
                       w3 = write_file CSV_FILE (Table df_updated) w2
                   in (Inr df_updated, print (msg_added (length (rows df_append))) w3))
                else (Inr df_exist, print msg_nothing w2)))
      | (False, w1) \<Rightarrow>
          (let w2 = write_file CSV_FILE (Table df_new) w1
           in (Inr df_new, print (msg_created (length (rows df_new))) w2)))"

definition dict_get :: "(string \<rightharpoonup> api_rec list) \<Rightarrow> string \<Rightarrow> api_rec list" where
  "dict_get d k = (case d k of None \<Rightarrow> [] | Some v \<Rightarrow> v)"

definition fetch_and_update_csv ::
  "upstream \<Rightarrow> string \<Rightarrow> string \<Rightarrow> string \<Rightarrow> world \<Rightarrow> (error + frame) \<times> world" where
  "fetch_and_update_csv net owner repo token w =
     (case request_json (traffic_api net) (BASE_API owner repo @ ''/traffic/clones'') token w of
        (Inl e, w1) \<Rightarrow> (Inl e, w1)
      | (Inr jc, w1) \<Rightarrow>
          (case request_json (traffic_api net) (BASE_API owner repo @ ''/traffic/views'') token w1 of
             (Inl e, w2) \<Rightarrow> (Inl e, w2)
           | (Inr jv, w2) \<Rightarrow>
               (case new_table (dict_get jc ''clones'') (dict_get jv ''views'') of
                  Inl e \<Rightarrow> (Inl e, w2)
                | Inr df_new \<Rightarrow> update_csv df_new w2)))"

section \<open>fetch_referrers, build_dashboard and the main block\<close>

definition fetch_referrers ::
  "upstream \<Rightarrow> string \<Rightarrow> string \<Rightarrow> string \<Rightarrow> world \<Rightarrow> (error + referrer list) \<times> world" where
  "fetch_referrers net owner repo token w =
     request_json (referrers_api net) (BASE_API owner repo @ ''/traffic/popular/referrers'') token w"

text \<open>
  \<open>make_dual\<close> reads \<open>df['date']\<close>, \<open>df[y1]\<close> and \<open>df[y2]\<close>; a column the frame lacks is a
  KeyError, raised before the page is written.
\<close>

definition missing_column :: "frame \<Rightarrow> string list \<Rightarrow> string option" where
  "missing_column df cs = find (\<lambda>c. c \<notin> set (columns df)) cs"

definition msg_dashboard :: "string \<Rightarrow> string" where
  "msg_dashboard output_file =
     ''Dashboard HTML g'' @ [CHR 0xE9] @ ''n'' @ [CHR 0xE9] @ ''r'' @ [CHR 0xE9] @ '' : '' @ output_file"

definition build_dashboard ::
  "string \<Rightarrow> string \<Rightarrow> frame \<Rightarrow> referrer list \<Rightarrow> string \<Rightarrow> string \<Rightarrow> world \<Rightarrow> (error + unit) \<times> world" where
  "build_dashboard owner repo df df_ref page_date output_file w =
     (case missing_column df [''date'', ''clones'', ''clones_uniques'', ''date'', ''views'', ''views_uniques''] of
        Some c \<Rightarrow> (Inl (KeyError c), w)
      | None \<Rightarrow>
          (let page = \<lparr>h_owner = owner, h_repo = repo, h_page_date = page_date, h_df = df, h_df_ref = df_ref\<rparr>;
               w1 = write_file output_file (Page page) w
           in (Inr (), print (msg_dashboard output_file) w1)))"

definition msg_usage :: string where
  "msg_usage = ''Usage: python get_traffic_dashboard.py <owner> <repo>''"

definition msg_token :: string where
  "msg_token = ''Erreur: d'' @ [CHR 0xE9] @ ''finir GITHUB_TOKEN''"

text \<open>
  The main block. \<open>argv\<close> is \<open>sys.argv\<close> (the script name first), \<open>env\<close> the environment,
  \<open>now\<close> the formatted clock reading. An exception nobody catches ends the run.
\<close>

definition main ::
  "string list \<Rightarrow> (string \<rightharpoonup> string) \<Rightarrow> upstream \<Rightarrow> string \<Rightarrow> world \<Rightarrow> outcome \<times> world" where
  "main argv env net now w =
     (if length argv \<noteq> 3 then (SysExit 1, print msg_usage w)
      else
        (let owner = argv ! 1; repo = argv ! 2 in
         case env ''GITHUB_TOKEN'' of
           None \<Rightarrow> (SysExit 1, print msg_token w)
         | Some token \<Rightarrow>
             if token = [] then (SysExit 1, print msg_token w)
             else
               (case fetch_and_update_csv net owner repo token w of
                  (Inl e, w1) \<Rightarrow> (Uncaught e, w1)
                | (Inr df, w1) \<Rightarrow>
                    (case fetch_referrers net owner repo token w1 of
                       (Inl e, w2) \<Rightarrow> (Uncaught e, w2)
                     | (Inr df_ref, w2) \<Rightarrow>
                         (case build_dashboard owner repo df df_ref now ''main.html'' w2 of
                            (Inl e, w3) \<Rightarrow> (Uncaught e, w3)
                          | (Inr u, w3) \<Rightarrow> (Finished, w3))))))"

definition exit_status :: "outcome \<Rightarrow> nat" where
  "exit_status out = (case out of Finished \<Rightarrow> 0 | SysExit n \<Rightarrow> n | Uncaught e \<Rightarrow> 1)"

section \<open>Properties of tables\<close>

definition is_date :: "cell \<Rightarrow> bool" where
  "is_date c = (case c of DateC d \<Rightarrow> True | _ \<Rightarrow> False)"

definition day_of :: "cell \<Rightarrow> date" where
  "day_of c = (case c of DateC d \<Rightarrow> d | _ \<Rightarrow> 0)"

definition strictly_ascending :: "frame \<Rightarrow> bool" where
  "strictly_ascending df =
     (list_all is_date (column df ''date'') \<and> sorted_wrt (<) (map day_of (column df ''date'')))"

text \<open>What \<open>read_csv\<close> and the \<open>.dt\<close> accessor accept.\<close>

definition readable :: "frame \<Rightarrow> bool" where
  "readable df =
     (''date'' \<in> set (columns df)
      \<and> list_all (\<lambda>r. length r = length (columns df)) (rows df)
      \<and> rows df \<noteq> []
      \<and> list_all is_date_or_missing (column df ''date''))"

text \<open>The dates the CSV file holds, one for each row.\<close>

definition persisted_dates :: "world \<Rightarrow> cell multiset" where
  "persisted_dates w =
     (case fs w CSV_FILE of Some (Table df) \<Rightarrow> mset (column df ''date'') | _ \<Rightarrow> {#})"

text \<open>Successive runs of the program in one working directory, each with its own arguments,
  environment, platform answers and clock.\<close>

record run_args =
  r_argv :: "string list"
  r_env :: "string \<rightharpoonup> string"
  r_net :: upstream
  r_now :: string

fun runs :: "run_args list \<Rightarrow> world \<Rightarrow> world" where
  "runs [] w = w"
| "runs (a # as) w = runs as (snd (main (r_argv a) (r_env a) (r_net a) (r_now a) w))"

text \<open>Every series the platform answers holds at most one record for a calendar date.\<close>

definition unique_dates :: "upstream \<Rightarrow> bool" where
  "unique_dates net =
     (\<forall>url token status body key.
        traffic_api net url token = Response status body \<longrightarrow>
        distinct (map (\<lambda>r. fst (timestamp r)) (dict_get body key)))"

text \<open>The CSV file is absent or a table strictly ascending by date; absent or a table with
  the five fixed columns and five cells in each row.\<close>

definition ascending_file :: "content option \<Rightarrow> bool" where
  "ascending_file c =
     (case c of None \<Rightarrow> True | Some (Table df) \<Rightarrow> strictly_ascending df | Some (Page h) \<Rightarrow> False)"

definition well_formed_file :: "content option \<Rightarrow> bool" where
  "well_formed_file c =
     (case c of
        None \<Rightarrow> True
      | Some (Table df) \<Rightarrow>
          columns df = new_columns \<and> list_all (\<lambda>r. length r = length new_columns) (rows df)
      | Some (Page h) \<Rightarrow> False)"

section \<open>Concrete worlds and platforms\<close>

definition w0 :: world where
  "w0 = \<lparr>fs = Map.empty, trace = []\<rparr>"

definition net_empty :: upstream where
  "net_empty = \<lparr>traffic_api = (\<lambda>url token. Response 200 [''clones'' \<mapsto> [], ''views'' \<mapsto> []]),
                 referrers_api = (\<lambda>url token. Response 200 [])\<rparr>"

definition rec :: "date \<Rightarrow> int \<Rightarrow> int \<Rightarrow> api_rec" where
  "rec d c u = \<lparr>timestamp = (d, 0), count_n = c, uniques = u\<rparr>"

definition net_jan :: upstream where
  "net_jan = \<lparr>traffic_api = (\<lambda>url token. Response 200
                  [''clones'' \<mapsto> [rec 1 10 1, rec 2 20 2, rec 3 30 3],
                   ''views'' \<mapsto> [rec 2 200 22, rec 3 300 33, rec 4 400 44]]),
               referrers_api = (\<lambda>url token. Response 200
                  [\<lparr>referrer = ''github.com'', ref_count = 5, ref_uniques = 2\<rparr>])\<rparr>"

definition table_jan :: frame where
  "table_jan = \<lparr>columns = new_columns,
                 rows = [[DateC 1, NumC 10, NumC 1, NaN, NaN],
                         [DateC 2, NumC 20, NumC 2, NumC 200, NumC 22],
                         [DateC 3, NumC 30, NumC 3, NumC 300, NumC 33],
                         [DateC 4, NaN, NaN, NumC 400, NumC 44]]\<rparr>"

definition net_no_views :: upstream where
  "net_no_views = \<lparr>traffic_api = (\<lambda>url token. Response 200
                       [''clones'' \<mapsto> [rec 1 10 1, rec 2 20 2, rec 3 30 3], ''views'' \<mapsto> []]),
                    referrers_api = (\<lambda>url token. Response 200 [])\<rparr>"

definition net_referrers_down :: upstream where
  "net_referrers_down = net_jan\<lparr>referrers_api := (\<lambda>url token. Response 500 [])\<rparr>"

definition argv_or :: "string list" where
  "argv_or = [''sniffTraffic.py'', ''o'', ''r'']"

definition env_t :: "string \<rightharpoonup> string" where
  "env_t = [''GITHUB_TOKEN'' \<mapsto> ''t'']"

definition argv_other :: "string list" where
  "argv_other = [''sniffTraffic.py'', ''p'', ''q'']"

definition w_jan :: world where
  "w_jan = \<lparr>fs = [CSV_FILE \<mapsto> Table table_jan],
            trace = [Request ''https://api.github.com/repos/o/r/traffic/clones'' ''t'',
                     Request ''https://api.github.com/repos/o/r/traffic/views'' ''t'',
                     Exists CSV_FILE, WriteFile CSV_FILE, Print (msg_created 4)]\<rparr>"

definition table_old :: frame where
  "table_old = \<lparr>columns = new_columns,
                 rows = [[DateC 1, NumC 10, NumC 1, NumC 100, NumC 11],
                         [DateC 2, NumC 20, NumC 2, NumC 200, NumC 22],
                         [DateC 3, NumC 30, NumC 3, NumC 300, NumC 33]]\<rparr>"

definition table_later :: frame where
  "table_later = \<lparr>columns = new_columns,
                   rows = [[DateC 2, NumC 21, NumC 5, NumC 201, NumC 25],
                           [DateC 3, NumC 31, NumC 6, NumC 301, NumC 36],
                           [DateC 4, NumC 40, NumC 4, NumC 400, NumC 44]]\<rparr>"

definition table_merged :: frame where
  "table_merged = \<lparr>columns = new_columns,
                    rows = [[DateC 1, NumC 10, NumC 1, NumC 100, NumC 11],
                            [DateC 2, NumC 20, NumC 2, NumC 200, NumC 22],
                            [DateC 3, NumC 30, NumC 3, NumC 300, NumC 33],
                            [DateC 4, NumC 40, NumC 4, NumC 400, NumC 44]]\<rparr>"

definition w_old :: world where
  "w_old = \<lparr>fs = [CSV_FILE \<mapsto> Table table_old], trace = []\<rparr>"

definition run_jan :: run_args where
  "run_jan = \<lparr>r_argv = argv_or, r_env = env_t, r_net = net_jan, r_now = ''now''\<rparr>"

definition run_other :: run_args where
  "run_other = \<lparr>r_argv = argv_other, r_env = env_t, r_net = net_jan, r_now = ''later''\<rparr>"

definition net_later :: upstream where
  "net_later = \<lparr>traffic_api = (\<lambda>url token. Response 200
                    [''clones'' \<mapsto> [rec 2 21 5, rec 3 31 6, rec 4 40 4],
                     ''views'' \<mapsto> [rec 2 201 25, rec 3 301 36, rec 4 400 44]]),
                 referrers_api = (\<lambda>url token. Response 200 [])\<rparr>"

section \<open>Facts about the table operations\<close>

subsection \<open>Cells by column name\<close>

lemma col_index_less: "c \<in> set cols \<Longrightarrow> col_index c cols < length cols"
  by (induction cols) auto

lemma col_index_nth: "c \<in> set cols \<Longrightarrow> cols ! col_index c cols = c"
  by (induction cols) auto

lemma col_index_distinct: "distinct cols \<Longrightarrow> i < length cols \<Longrightarrow> col_index (cols ! i) cols = i"
proof (induction cols arbitrary: i)
  case Nil
  then show ?case by simp
next
  case (Cons k ks)
  show ?case
  proof (cases i)
    case 0
    then show ?thesis by simp
  next
    case (Suc j)
    then have "j < length ks" using Cons.prems by simp
    moreover have "ks ! j \<noteq> k" using Cons.prems Suc by auto
    ultimately show ?thesis using Cons Suc by auto
  qed
qed

lemma cell_of_map: "c \<in> set cols \<Longrightarrow> cell_of cols c (map f cols) = f c"
  by (simp add: cell_of_def Let_def col_index_less col_index_nth)

lemma cell_of_reindex:
  "c \<in> set cols \<Longrightarrow> cell_of cols c (reindex cols src r) = (if c \<in> set src then cell_of src c r else NaN)"
  unfolding reindex_def by (simp add: cell_of_map)

lemma reindex_same:
  assumes "distinct cols" and "length r = length cols"
  shows "reindex cols cols r = r"
proof (rule nth_equalityI)
  show "length (reindex cols cols r) = length r" using assms by (simp add: reindex_def)
next
  fix i assume "i < length (reindex cols cols r)"
  then have i: "i < length cols" by (simp add: reindex_def)
  then have "reindex cols cols r ! i = cell_of cols (cols ! i) r"
    by (simp add: reindex_def)
  also have "\<dots> = r ! i"
    using assms i by (simp add: cell_of_def Let_def col_index_distinct)
  finally show "reindex cols cols r ! i = r ! i" .
qed

lemma length_reindex [simp]: "length (reindex cols src r) = length cols"
  by (simp add: reindex_def)

lemma date_in_new_columns [simp]: "''date'' \<in> set new_columns"
  by (simp add: new_columns_def)

lemma distinct_new_columns [simp]: "distinct new_columns"
  by (simp add: new_columns_def)

lemma length_new_columns [simp]: "length new_columns = 5"
  by (simp add: new_columns_def)

lemma cell_of_new_date [simp]: "cell_of new_columns ''date'' (x # xs) = x"
  by (simp add: cell_of_def new_columns_def)

subsection \<open>The frames of concat and sort\<close>

lemma columns_sort_values [simp]: "columns (sort_values df) = columns df"
  by (simp add: sort_values_def)

lemma mset_rows_sort_values [simp]: "mset (rows (sort_values df)) = mset (rows df)"
  by (simp add: sort_values_def)

lemma set_rows_sort_values [simp]: "set (rows (sort_values df)) = set (rows df)"
  by (simp add: sort_values_def)

lemma mset_column_sort_values [simp]: "mset (column (sort_values df) c) = mset (column df c)"
  unfolding column_def columns_sort_values
  by (metis mset_map mset_rows_sort_values)

lemma set_column_sort_values [simp]: "set (column (sort_values df) c) = set (column df c)"
  by (metis mset_column_sort_values set_mset_mset)

lemma sorted_keys_sort_values:
  "sorted (map date_key (column (sort_values df) ''date''))"
proof -
  have "map date_key (column (sort_values df) ''date'')
      = map (\<lambda>r. date_key (cell_of (columns df) ''date'' r))
            (sort_key (\<lambda>r. date_key (cell_of (columns df) ''date'' r)) (rows df))"
    by (simp add: column_def sort_values_def comp_def)
  then show ?thesis by (simp add: sorted_sort_key)
qed

lemma columns_concat_frames:
  "columns (concat_frames a b) = columns a @ filter (\<lambda>c. c \<notin> set (columns a)) (columns b)"
  by (simp add: concat_frames_def Let_def)

lemma column_concat_frames:
  assumes "c \<in> set (columns a)"
  shows "column (concat_frames a b) c =
           column a c @ map (\<lambda>r. if c \<in> set (columns b) then cell_of (columns b) c r else NaN) (rows b)"
proof -
  let ?cols = "columns a @ filter (\<lambda>c. c \<notin> set (columns a)) (columns b)"
  have c: "c \<in> set ?cols" using assms by simp
  show ?thesis
    using assms
    by (simp add: column_def concat_frames_def Let_def cell_of_reindex [OF c] comp_def)
qed

lemma rows_concat_rect:
  "r \<in> set (rows (concat_frames a b)) \<Longrightarrow> length r = length (columns (concat_frames a b))"
  by (auto simp add: concat_frames_def Let_def)

subsection \<open>Strictly ascending columns\<close>

lemma date_key_date: "is_date c \<Longrightarrow> date_key c = (0, day_of c)"
  by (cases c) (simp_all add: is_date_def date_key_def day_of_def)

lemma is_date_eq: "is_date c \<Longrightarrow> c = DateC (day_of c)"
  by (cases c) (simp_all add: is_date_def day_of_def)

lemma strict_of_sorted_keys:
  assumes "list_all is_date cs" and "sorted (map date_key cs)" and "distinct cs"
  shows "sorted_wrt (<) (map day_of cs)"
  using assms
proof (induction cs)
  case Nil
  then show ?case by simp
next
  case (Cons c cs)
  have "day_of c < day_of x" if x: "x \<in> set cs" for x
  proof -
    have dx: "is_date x" using Cons.prems(1) x by (simp add: list_all_iff)
    have dc: "is_date c" using Cons.prems(1) by simp
    have "date_key c \<le> date_key x" using Cons.prems(2) x by simp
    then have "day_of c \<le> day_of x" using dx dc by (simp add: date_key_date)
    moreover have "c \<noteq> x" using Cons.prems(3) x by auto
    then have "day_of c \<noteq> day_of x" using is_date_eq [OF dx] is_date_eq [OF dc] by metis
    ultimately show ?thesis by simp
  qed
  then show ?case using Cons by simp
qed

lemma strictly_ascending_sort_values:
  assumes "list_all is_date (column df ''date'')" and "distinct (column df ''date'')"
  shows "strictly_ascending (sort_values df)"
proof -
  let ?cs = "column (sort_values df) ''date''"
  have a: "list_all is_date ?cs" using assms(1) by (simp add: list_all_iff)
  have "mset ?cs = mset (column df ''date'')" by simp
  then have d: "distinct ?cs" using assms(2) by (metis mset_eq_imp_distinct_iff)
  show ?thesis
    unfolding strictly_ascending_def
    using a strict_of_sorted_keys [OF a sorted_keys_sort_values d] by simp
qed

lemma strictly_ascending_distinct:
  assumes "strictly_ascending df"
  shows "distinct (column df ''date'')"
proof -
  have "distinct (map day_of (column df ''date''))"
    using assms by (simp add: strictly_ascending_def strict_sorted_iff)
  then show ?thesis by (simp add: distinct_map)
qed

subsection \<open>The outer merge\<close>

lemma merge_rows_shape:
  assumes "row \<in> set (merge_rows l r k)"
  shows "\<exists>a b c d. row = [DateC k, a, b, c, d]"
  using assms
  by (auto simp add: merge_rows_def Let_def split: if_splits)

lemma merge_rows_date:
  assumes "row \<in> set (merge_rows l r k)"
  shows "cell_of new_columns ''date'' row = DateC k"
  using merge_rows_shape [OF assms] by auto

lemma merge_rows_length:
  assumes "row \<in> set (merge_rows l r k)"
  shows "length row = 5"
  using merge_rows_shape [OF assms] by auto

lemma merge_rows_absent:
  assumes "k \<notin> fst ` set l" and "k \<notin> fst ` set r"
  shows "merge_rows l r k = []"
proof -
  have "filter (\<lambda>x. fst x = k) l = []" using assms(1) by (auto simp add: filter_empty_conv)
  moreover have "filter (\<lambda>x. fst x = k) r = []" using assms(2) by (auto simp add: filter_empty_conv)
  ultimately show ?thesis by (simp add: merge_rows_def)
qed

lemma filter_concat_keyed:
  assumes "distinct ks" and "\<And>k row. row \<in> set (f k) \<Longrightarrow> g row = k"
  shows "filter (\<lambda>row. g row = d) (concat (map f ks)) = (if d \<in> set ks then f d else [])"
  using assms(1)
proof (induction ks)
  case Nil
  then show ?case by simp
next
  case (Cons k ks)
  have same: "filter (\<lambda>row. g row = d) (f d) = f d"
    using assms(2) by (simp add: filter_id_conv)
  have other: "filter (\<lambda>row. g row = d) (f k) = []" if "k \<noteq> d"
    using assms(2) that by (auto simp add: filter_empty_conv)
  show ?case
  proof (cases "k = d")
    case True
    then have "d \<notin> set ks" using Cons.prems by simp
    then show ?thesis using Cons True same by simp
  next
    case False
    then show ?thesis using Cons other by auto
  qed
qed

lemma merge_keys:
  "set (sort (remdups (map fst l @ map fst r))) = fst ` set l \<union> fst ` set r"
  by simp

lemma filter_merge_outer:
  "filter (\<lambda>row. cell_of new_columns ''date'' row = DateC d) (merge_outer l r) = merge_rows l r d"
proof -
  let ?ks = "sort (remdups (map fst l @ map fst r))"
  have dk: "distinct ?ks" by simp
  have "filter (\<lambda>row. day_of (cell_of new_columns ''date'' row) = d) (concat (map (merge_rows l r) ?ks))
      = (if d \<in> set ?ks then merge_rows l r d else [])"
    by (rule filter_concat_keyed [OF dk]) (simp add: merge_rows_date day_of_def)
  moreover have "(\<lambda>row. day_of (cell_of new_columns ''date'' row) = d) row
               = (\<lambda>row. cell_of new_columns ''date'' row = DateC d) row"
    if "row \<in> set (concat (map (merge_rows l r) ?ks))" for row
    using that by (auto simp add: merge_rows_date day_of_def)
  then have "filter (\<lambda>row. day_of (cell_of new_columns ''date'' row) = d) (concat (map (merge_rows l r) ?ks))
           = filter (\<lambda>row. cell_of new_columns ''date'' row = DateC d) (concat (map (merge_rows l r) ?ks))"
    by (intro filter_cong refl) 
  moreover have "merge_rows l r d = []" if "d \<notin> set ?ks"
    using that by (intro merge_rows_absent) auto
  ultimately show ?thesis by (auto simp add: merge_outer_def)
qed

lemma merge_outer_rows:
  assumes "row \<in> set (merge_outer l r)"
  shows "length row = 5 \<and> is_date (cell_of new_columns ''date'' row)
       \<and> day_of (cell_of new_columns ''date'' row) \<in> fst ` set l \<union> fst ` set r"
proof -
  from assms obtain k where k: "k \<in> fst ` set l \<union> fst ` set r" and row: "row \<in> set (merge_rows l r k)"
    by (auto simp add: merge_outer_def)
  show ?thesis
    using k merge_rows_date [OF row] merge_rows_length [OF row]
    by (simp add: is_date_def day_of_def)
qed

lemma length_filter_key:
  "distinct (map fst l) \<Longrightarrow> length (filter (\<lambda>x. fst x = k) l) = (if k \<in> fst ` set l then 1 else 0)"
proof (induction l)
  case Nil
  then show ?case by simp
next
  case (Cons x xs)
  then show ?case by (auto simp add: image_iff)
qed

lemma merge_rows_single:
  assumes "distinct (map fst l)" and "distinct (map fst r)" and "k \<in> fst ` set l \<union> fst ` set r"
  shows "length (merge_rows l r k) = 1"
proof -
  let ?ls = "filter (\<lambda>x. fst x = k) l" and ?rs = "filter (\<lambda>x. fst x = k) r"
  have ll: "length ?ls = (if k \<in> fst ` set l then 1 else 0)" using assms(1) by (rule length_filter_key)
  have lr: "length ?rs = (if k \<in> fst ` set r then 1 else 0)" using assms(2) by (rule length_filter_key)
  show ?thesis
  proof (cases "?rs = []")
    case True
    then have "k \<in> fst ` set l" using assms(3) lr by (auto split: if_splits)
    then show ?thesis using True ll by (simp add: merge_rows_def)
  next
    case rs: False
    then have r1: "length ?rs = 1" using lr by (auto split: if_splits)
    show ?thesis
    proof (cases "?ls = []")
      case True
      then show ?thesis using rs r1 by (simp add: merge_rows_def)
    next
      case False
      then have l1: "length ?ls = 1" using ll by (auto split: if_splits)
      obtain a where a: "?ls = [a]" using l1 by (cases ?ls) auto
      obtain b where b: "?rs = [b]" using r1 by (cases ?rs) auto
      show ?thesis using a b by (simp add: merge_rows_def split: prod.split)
    qed
  qed
qed

lemma column_merge_outer_distinct:
  assumes "distinct (map fst l)" and "distinct (map fst r)"
  shows "map (cell_of new_columns ''date'') (merge_outer l r)
           = map DateC (sort (remdups (map fst l @ map fst r)))"
proof -
  let ?ks = "sort (remdups (map fst l @ map fst r))"
  have one: "map (cell_of new_columns ''date'') (merge_rows l r k) = [DateC k]"
    if "k \<in> set ?ks" for k
  proof -
    have "k \<in> fst ` set l \<union> fst ` set r" using that by simp
    then have "length (merge_rows l r k) = 1" by (rule merge_rows_single [OF assms])
    then obtain row where row: "merge_rows l r k = [row]"
      by (cases "merge_rows l r k") auto
    then show ?thesis using merge_rows_date [of row l r k] by simp
  qed
  have "map (cell_of new_columns ''date'') (concat (map (merge_rows l r) ks)) = map DateC ks"
    if "set ks \<subseteq> set ?ks" for ks
    using that by (induction ks) (simp_all add: one)
  then show ?thesis by (simp add: merge_outer_def)
qed

subsection \<open>The new-data table\<close>

lemma new_table_ok:
  assumes "new_table clones views = Inr df"
  shows "clones \<noteq> [] \<and> views \<noteq> [] \<and>
         df = sort_values \<lparr>columns = new_columns,
                rows = merge_outer (map (\<lambda>r. (fst (timestamp r), count_n r, uniques r)) clones)
                                   (map (\<lambda>r. (fst (timestamp r), count_n r, uniques r)) views)\<rparr>"
  using assms by (auto simp add: new_table_def dated_def split: if_splits)

lemma new_table_columns:
  assumes "new_table clones views = Inr df"
  shows "columns df = new_columns"
  using new_table_ok [OF assms] by simp

lemma new_table_rows:
  assumes "new_table clones views = Inr df" and "row \<in> set (rows df)"
  shows "length row = 5 \<and> is_date (cell_of new_columns ''date'' row)"
proof -
  let ?l = "map (\<lambda>r. (fst (timestamp r), count_n r, uniques r)) clones"
  let ?r = "map (\<lambda>r. (fst (timestamp r), count_n r, uniques r)) views"
  have "row \<in> set (merge_outer ?l ?r)"
    using new_table_ok [OF assms(1)] assms(2) by simp
  then show ?thesis using merge_outer_rows by blast
qed

lemma new_table_dates:
  assumes "new_table clones views = Inr df"
  shows "list_all is_date (column df ''date'')"
  using new_table_rows [OF assms] new_table_columns [OF assms]
  by (simp add: column_def list_all_iff)

lemma new_table_filter:
  assumes "new_table clones views = Inr df"
  shows "mset (filter (\<lambda>row. cell_of new_columns ''date'' row = DateC d) (rows df))
       = mset (merge_rows (map (\<lambda>r. (fst (timestamp r), count_n r, uniques r)) clones)
                          (map (\<lambda>r. (fst (timestamp r), count_n r, uniques r)) views) d)"
proof -
  let ?l = "map (\<lambda>r. (fst (timestamp r), count_n r, uniques r)) clones"
  let ?r = "map (\<lambda>r. (fst (timestamp r), count_n r, uniques r)) views"
  let ?P = "\<lambda>row. cell_of new_columns ''date'' row = DateC d"
  have "mset (rows df) = mset (merge_outer ?l ?r)"
    using new_table_ok [OF assms] by simp
  then have "mset (filter ?P (rows df)) = mset (filter ?P (merge_outer ?l ?r))"
    by (simp only: mset_filter)
  then show ?thesis by (simp only: filter_merge_outer)
qed

lemma merge_rows_left_only:
  assumes "d \<notin> fst ` set r"
  shows "merge_rows l r d = map (\<lambda>(d', c, u). [DateC d, NumC c, NumC u, NaN, NaN]) (filter (\<lambda>x. fst x = d) l)"
proof -
  have "filter (\<lambda>x. fst x = d) r = []" using assms by (auto simp add: filter_empty_conv)
  then show ?thesis by (simp add: merge_rows_def)
qed

lemma merge_rows_right_only:
  assumes "d \<notin> fst ` set l"
  shows "merge_rows l r d = map (\<lambda>(d', c, u). [DateC d, NaN, NaN, NumC c, NumC u]) (filter (\<lambda>x. fst x = d) r)"
proof -
  have "filter (\<lambda>x. fst x = d) l = []" using assms by (auto simp add: filter_empty_conv)
  then show ?thesis
    by (cases "filter (\<lambda>x. fst x = d) r = []") (simp_all add: merge_rows_def)
qed

lemma merge_rows_nonempty:
  assumes "k \<in> fst ` set l \<union> fst ` set r"
  shows "merge_rows l r k \<noteq> []"
proof -
  let ?ls = "filter (\<lambda>x. fst x = k) l" and ?rs = "filter (\<lambda>x. fst x = k) r"
  show ?thesis
  proof (cases "?rs = []")
    case True
    then have "k \<in> fst ` set l" using assms by (auto simp add: filter_empty_conv)
    then have "?ls \<noteq> []" by (auto simp add: filter_empty_conv)
    then show ?thesis using True by (simp add: merge_rows_def)
  next
    case rs: False
    show ?thesis
    proof (cases "?ls = []")
      case True
      then show ?thesis using rs by (simp add: merge_rows_def)
    next
      case False
      then obtain a as where a: "?ls = a # as" by (cases ?ls) auto
      obtain b bs where b: "?rs = b # bs" using rs by (cases ?rs) auto
      show ?thesis using a b by (cases a; cases b) (simp add: merge_rows_def)
    qed
  qed
qed

lemma new_table_date_set:
  assumes "new_table clones views = Inr df"
  shows "set (column df ''date'') = DateC ` (fst ` timestamp ` set clones \<union> fst ` timestamp ` set views)"
proof -
  let ?l = "map (\<lambda>r. (fst (timestamp r), count_n r, uniques r)) clones"
  let ?r = "map (\<lambda>r. (fst (timestamp r), count_n r, uniques r)) views"
  have keys: "fst ` set ?l \<union> fst ` set ?r = fst ` timestamp ` set clones \<union> fst ` timestamp ` set views"
    by (simp add: image_image)
  have col: "set (column df ''date'') = cell_of new_columns ''date'' ` set (merge_outer ?l ?r)"
    using new_table_ok [OF assms] by (simp add: column_def)
  show ?thesis
  proof (intro set_eqI iffI)
    fix c assume "c \<in> set (column df ''date'')"
    then obtain row where row: "row \<in> set (merge_outer ?l ?r)" and c: "c = cell_of new_columns ''date'' row"
      using col by auto
    have "is_date c" "day_of c \<in> fst ` set ?l \<union> fst ` set ?r"
      using merge_outer_rows [OF row] c by simp_all
    then have "c = DateC (day_of c)" "day_of c \<in> fst ` timestamp ` set clones \<union> fst ` timestamp ` set views"
      using is_date_eq [of c] by (simp_all only: keys)
    then show "c \<in> DateC ` (fst ` timestamp ` set clones \<union> fst ` timestamp ` set views)"
      by (rule image_eqI)
  next
    fix c assume "c \<in> DateC ` (fst ` timestamp ` set clones \<union> fst ` timestamp ` set views)"
    then obtain k where k0: "k \<in> fst ` timestamp ` set clones \<union> fst ` timestamp ` set views"
      and c: "c = DateC k" by blast
    have k: "k \<in> fst ` set ?l \<union> fst ` set ?r" using k0 by (simp only: keys)
    have "merge_rows ?l ?r k \<noteq> []" using k by (rule merge_rows_nonempty)
    then obtain row where row: "row \<in> set (merge_rows ?l ?r k)"
      by (cases "merge_rows ?l ?r k") auto
    then have inr: "row \<in> set (merge_outer ?l ?r)" using k by (auto simp add: merge_outer_def)
    have "cell_of new_columns ''date'' row = DateC k" using row by (rule merge_rows_date)
    then have "DateC k \<in> cell_of new_columns ''date'' ` set (merge_outer ?l ?r)"
      using inr by (rule image_eqI [OF sym])
    then show "c \<in> set (column df ''date'')" by (simp only: col c)
  qed
qed

section \<open>Pre-flight validation\<close>

text \<open>
  C8, as stated, fails for the token half: with no positional argument and GITHUB_TOKEN
  unset, the argument check comes first, so the run prints the usage line, not the
  missing-token line.
\<close>

theorem preflight_token_message_counterexample:
  "(Map.empty :: string \<rightharpoonup> string) ''GITHUB_TOKEN'' = None
 \<and> main [''sniffTraffic.py''] Map.empty net_empty ''now'' w0
       = (SysExit 1, \<lparr>fs = Map.empty, trace = [Print msg_usage]\<rparr>)
 \<and> msg_usage \<noteq> msg_token"
  by (simp add: main_def print_def log_event_def w0_def msg_usage_def msg_token_def)

text \<open>
  C8, amended. An invocation whose number of positional arguments is not two prints the
  usage line and exits with status 1. An invocation with GITHUB_TOKEN unset exits with
  status 1 after one printed line, which is the missing-token line when there are exactly
  two positional arguments. In both cases the world is the one before the run with that
  single print added: no request, no file looked up, read or written.
\<close>

theorem preflight_no_side_effects:
  "(length (tl argv) \<noteq> 2 \<longrightarrow>
      main argv env net now w = (SysExit 1, w\<lparr>trace := trace w @ [Print msg_usage]\<rparr>))
 \<and> (env ''GITHUB_TOKEN'' = None \<longrightarrow>
      (\<exists>m. main argv env net now w = (SysExit 1, w\<lparr>trace := trace w @ [Print m]\<rparr>)
           \<and> (length (tl argv) = 2 \<longrightarrow> m = msg_token)))"
proof -
  have len: "length (tl argv) = 2 \<longleftrightarrow> length argv = 3"
    by (cases argv) auto
  have usage: "length argv \<noteq> 3 \<Longrightarrow>
      main argv env net now w = (SysExit 1, w\<lparr>trace := trace w @ [Print msg_usage]\<rparr>)"
    by (simp add: main_def print_def log_event_def)
  have token: "length argv = 3 \<Longrightarrow> env ''GITHUB_TOKEN'' = None \<Longrightarrow>
      main argv env net now w = (SysExit 1, w\<lparr>trace := trace w @ [Print msg_token]\<rparr>)"
    by (simp add: main_def print_def log_event_def)
  show ?thesis
  proof (cases "length argv = 3")
    case True
    then show ?thesis using token len by auto
  next
    case False
    then show ?thesis using usage len by auto
  qed
qed

theorem preflight_no_side_effects_witness:
  "length (tl [''sniffTraffic.py'', ''o'']) \<noteq> 2
 \<and> main [''sniffTraffic.py'', ''o''] Map.empty net_empty ''now'' w0
       = (SysExit 1, \<lparr>fs = Map.empty, trace = [Print msg_usage]\<rparr>)
 \<and> (Map.empty :: string \<rightharpoonup> string) ''GITHUB_TOKEN'' = None
 \<and> length (tl [''sniffTraffic.py'', ''o'', ''r'']) = 2
 \<and> main [''sniffTraffic.py'', ''o'', ''r''] Map.empty net_empty ''now'' w0
       = (SysExit 1, \<lparr>fs = Map.empty, trace = [Print msg_token]\<rparr>)"
  using preflight_no_side_effects [of "[''sniffTraffic.py'', ''o'']" Map.empty net_empty "''now''" w0]
        preflight_no_side_effects [of "[''sniffTraffic.py'', ''o'', ''r'']" Map.empty net_empty "''now''" w0]
  by (simp add: w0_def)

section \<open>Empty series\<close>

text \<open>
  C2. When both endpoints answer an empty series, the run does not report "no new data":
  the frames built from the empty lists have no \<open>timestamp\<close> column, the lookup raises
  KeyError after the two requests, and nothing is printed or written.
\<close>

theorem empty_series_key_error:
  "main [''sniffTraffic.py'', ''o'', ''r''] [''GITHUB_TOKEN'' \<mapsto> ''t''] net_empty ''now'' w0
     = (Uncaught (KeyError ''timestamp''),
        \<lparr>fs = Map.empty,
         trace = [Request ''https://api.github.com/repos/o/r/traffic/clones'' ''t'',
                  Request ''https://api.github.com/repos/o/r/traffic/views'' ''t'']\<rparr>)"
  by (simp add: main_def fetch_and_update_csv_def request_json_def net_empty_def w0_def
      log_event_def BASE_API_def dict_get_def new_table_def dated_def)

section \<open>What each step does to the files\<close>

lemma fs_log_event [simp]: "fs (log_event e w) = fs w"
  by (simp add: log_event_def)

lemma fs_print [simp]: "fs (print s w) = fs w"
  by (simp add: print_def)

lemma fs_write_file [simp]: "fs (write_file p c w) = (fs w)(p \<mapsto> c)"
  by (simp add: write_file_def)

lemma fs_request_json [simp]: "fs (snd (request_json api url token w)) = fs w"
  by (simp add: request_json_def Let_def split: response.split)

lemma fs_path_exists [simp]: "fs (snd (path_exists p w)) = fs w"
  by (simp add: path_exists_def)

lemma fs_read_csv [simp]: "fs (snd (read_csv p w)) = fs w"
  by (simp add: read_csv_def Let_def split: option.split content.split)

lemma update_csv_error_fs:
  assumes "update_csv df_new w = (Inl e, w')"
  shows "fs w' = fs w"
proof -
  obtain b w1 where pe: "path_exists CSV_FILE w = (b, w1)" by (cases "path_exists CSV_FILE w")
  have f1: "fs w1 = fs w" using fs_path_exists [of CSV_FILE w] pe by simp
  show ?thesis
  proof (cases b)
    case False
    then show ?thesis using assms pe by (simp add: update_csv_def Let_def)
  next
    case True
    obtain res w2 where rd: "read_csv CSV_FILE w1 = (res, w2)" by (cases "read_csv CSV_FILE w1")
    have f2: "fs w2 = fs w1" using fs_read_csv [of CSV_FILE w1] rd by simp
    show ?thesis
    proof (cases res)
      case (Inl e')
      then show ?thesis using assms pe rd True f1 f2 by (simp add: update_csv_def)
    next
      case (Inr df_exist)
      then show ?thesis using assms pe rd True
        by (simp add: update_csv_def Let_def split: if_splits)
    qed
  qed
qed

lemma update_csv_fs_other:
  assumes "p \<noteq> CSV_FILE"
  shows "fs (snd (update_csv df_new w)) p = fs w p"
proof -
  obtain b w1 where pe: "path_exists CSV_FILE w = (b, w1)" by (cases "path_exists CSV_FILE w")
  have f1: "fs w1 = fs w" using fs_path_exists [of CSV_FILE w] pe by simp
  obtain res w2 where rd: "read_csv CSV_FILE w1 = (res, w2)" by (cases "read_csv CSV_FILE w1")
  have f2: "fs w2 = fs w1" using fs_read_csv [of CSV_FILE w1] rd by simp
  show ?thesis
    using assms pe rd f1 f2
    by (cases b; cases res) (simp_all add: update_csv_def Let_def)
qed

lemma fetch_error_fs:
  assumes "fetch_and_update_csv net owner repo token w = (Inl e, w')"
  shows "fs w' = fs w"
proof -
  let ?u1 = "BASE_API owner repo @ ''/traffic/clones''"
  let ?u2 = "BASE_API owner repo @ ''/traffic/views''"
  obtain r1 w1 where q1: "request_json (traffic_api net) ?u1 token w = (r1, w1)"
    by (cases "request_json (traffic_api net) ?u1 token w")
  have f1: "fs w1 = fs w" using fs_request_json [of "traffic_api net" ?u1 token w] q1 by simp
  obtain r2 w2 where q2: "request_json (traffic_api net) ?u2 token w1 = (r2, w2)"
    by (cases "request_json (traffic_api net) ?u2 token w1")
  have f2: "fs w2 = fs w1" using fs_request_json [of "traffic_api net" ?u2 token w1] q2 by simp
  show ?thesis
  proof (cases r1)
    case (Inl a)
    then show ?thesis using assms q1 f1 by (simp add: fetch_and_update_csv_def)
  next
    case jc: (Inr jc)
    show ?thesis
    proof (cases r2)
      case (Inl a)
      then show ?thesis using assms q1 q2 jc f1 f2 by (simp add: fetch_and_update_csv_def)
    next
      case jv: (Inr jv)
      show ?thesis
      proof (cases "new_table (dict_get jc ''clones'') (dict_get jv ''views'')")
        case (Inl a)
        then show ?thesis using assms q1 q2 jc jv f1 f2 by (simp add: fetch_and_update_csv_def)
      next
        case (Inr df_new)
        then have "update_csv df_new w2 = (Inl e, w')"
          using assms q1 q2 jc jv by (simp add: fetch_and_update_csv_def)
        then have "fs w' = fs w2" by (rule update_csv_error_fs)
        then show ?thesis using f1 f2 by simp
      qed
    qed
  qed
qed

lemma fetch_fs_other:
  assumes "p \<noteq> CSV_FILE"
  shows "fs (snd (fetch_and_update_csv net owner repo token w)) p = fs w p"
proof -
  let ?u1 = "BASE_API owner repo @ ''/traffic/clones''"
  let ?u2 = "BASE_API owner repo @ ''/traffic/views''"
  obtain r1 w1 where q1: "request_json (traffic_api net) ?u1 token w = (r1, w1)"
    by (cases "request_json (traffic_api net) ?u1 token w")
  have f1: "fs w1 = fs w" using fs_request_json [of "traffic_api net" ?u1 token w] q1 by simp
  obtain r2 w2 where q2: "request_json (traffic_api net) ?u2 token w1 = (r2, w2)"
    by (cases "request_json (traffic_api net) ?u2 token w1")
  have f2: "fs w2 = fs w1" using fs_request_json [of "traffic_api net" ?u2 token w1] q2 by simp
  show ?thesis
    using q1 q2 f1 f2 update_csv_fs_other [OF assms, of _ w2]
    by (simp add: fetch_and_update_csv_def split: sum.split)
qed

lemma read_csv_ok:
  assumes "read_csv p w = (Inr df, w')"
  shows "fs w p = Some (Table df)"
  using assms
  by (simp add: read_csv_def Let_def split: option.splits content.splits if_splits)

lemma update_csv_ok_file:
  assumes "update_csv df_new w = (Inr df, w')"
  shows "fs w' CSV_FILE = Some (Table df)"
proof -
  obtain b w1 where pe: "path_exists CSV_FILE w = (b, w1)" by (cases "path_exists CSV_FILE w")
  have f1: "fs w1 = fs w" using fs_path_exists [of CSV_FILE w] pe by simp
  show ?thesis
  proof (cases b)
    case False
    then show ?thesis using assms pe by (auto simp add: update_csv_def Let_def)
  next
    case True
    obtain res w2 where rd: "read_csv CSV_FILE w1 = (res, w2)" by (cases "read_csv CSV_FILE w1")
    have f2: "fs w2 = fs w1" using fs_read_csv [of CSV_FILE w1] rd by simp
    show ?thesis
    proof (cases res)
      case (Inl e')
      then show ?thesis using assms pe rd True by (simp add: update_csv_def)
    next
      case (Inr df_exist)
      then have "fs w1 CSV_FILE = Some (Table df_exist)" using rd read_csv_ok by blast
      then show ?thesis using assms pe rd True Inr f2
        by (auto simp add: update_csv_def Let_def split: if_splits)
    qed
  qed
qed

lemma fetch_ok_file:
  assumes "fetch_and_update_csv net owner repo token w = (Inr df, w')"
  shows "fs w' CSV_FILE = Some (Table df)"
  using assms update_csv_ok_file
  by (auto simp add: fetch_and_update_csv_def split: prod.splits sum.splits)

lemma build_dashboard_error:
  assumes "build_dashboard owner repo df df_ref page_date output_file w = (Inl e, w')"
  shows "w' = w"
  using assms by (simp add: build_dashboard_def Let_def split: option.splits)

lemma build_dashboard_ok:
  assumes "build_dashboard owner repo df df_ref page_date output_file w = (Inr u, w')"
  shows "fs w' = (fs w)(output_file \<mapsto> Page \<lparr>h_owner = owner, h_repo = repo, h_page_date = page_date,
                                                h_df = df, h_df_ref = df_ref\<rparr>)"
  using assms by (auto simp add: build_dashboard_def Let_def split: option.splits)

lemma fetch_referrers_fs:
  assumes "fetch_referrers net owner repo token w = (r, w')"
  shows "fs w' = fs w"
  using assms by (metis fetch_referrers_def fs_request_json snd_conv)

lemma main_finished:
  assumes "main argv env net now w = (Finished, w')"
  obtains token df w1 df_ref w2 where
    "length argv = 3" "env ''GITHUB_TOKEN'' = Some token" "token \<noteq> []"
    "fetch_and_update_csv net (argv ! 1) (argv ! 2) token w = (Inr df, w1)"
    "fetch_referrers net (argv ! 1) (argv ! 2) token w1 = (Inr df_ref, w2)"
    "build_dashboard (argv ! 1) (argv ! 2) df df_ref now ''main.html'' w2 = (Inr (), w')"
  using assms
  by (auto simp add: main_def Let_def split: if_splits option.splits prod.splits sum.splits)

lemma csv_not_main: "CSV_FILE \<noteq> ''main.html''"
  by (simp add: CSV_FILE_def)

section \<open>The run of the January scenario\<close>

lemma new_table_jan:
  "new_table [rec 1 10 1, rec 2 20 2, rec 3 30 3] [rec 2 200 22, rec 3 300 33, rec 4 400 44] = Inr table_jan"
  by (simp add: new_table_def dated_def rec_def merge_outer_def merge_rows_def sort_values_def
      table_jan_def new_columns_def cell_of_def date_key_def)

lemma fetch_jan:
  "fetch_and_update_csv net_jan ''o'' ''r'' ''t'' w0 =
     (Inr table_jan,
      \<lparr>fs = [CSV_FILE \<mapsto> Table table_jan],
       trace = [Request ''https://api.github.com/repos/o/r/traffic/clones'' ''t'',
                Request ''https://api.github.com/repos/o/r/traffic/views'' ''t'',
                Exists CSV_FILE, WriteFile CSV_FILE, Print (msg_created 4)]\<rparr>)"
  by (simp add: fetch_and_update_csv_def request_json_def net_jan_def dict_get_def new_table_jan
      update_csv_def path_exists_def write_file_def print_def log_event_def w0_def BASE_API_def
      table_jan_def eval_nat_numeral)

lemma referrers_jan:
  "fetch_referrers net_jan owner repo token w =
     (Inr [\<lparr>referrer = ''github.com'', ref_count = 5, ref_uniques = 2\<rparr>],
      log_event (Request (BASE_API owner repo @ ''/traffic/popular/referrers'') token) w)"
  by (simp add: fetch_referrers_def request_json_def net_jan_def)

lemma main_jan:
  "main argv_or env_t net_jan ''now'' w0 =
     (Finished,
      \<lparr>fs = [CSV_FILE \<mapsto> Table table_jan,
             ''main.html'' \<mapsto> Page \<lparr>h_owner = ''o'', h_repo = ''r'', h_page_date = ''now'',
                 h_df = table_jan,
                 h_df_ref = [\<lparr>referrer = ''github.com'', ref_count = 5, ref_uniques = 2\<rparr>]\<rparr>],
       trace = [Request ''https://api.github.com/repos/o/r/traffic/clones'' ''t'',
                Request ''https://api.github.com/repos/o/r/traffic/views'' ''t'',
                Exists CSV_FILE, WriteFile CSV_FILE, Print (msg_created 4),
                Request ''https://api.github.com/repos/o/r/traffic/popular/referrers'' ''t'',
                WriteFile ''main.html'', Print (msg_dashboard ''main.html'')]\<rparr>)"
  by (simp add: main_def Let_def argv_or_def env_t_def fetch_jan referrers_jan
      build_dashboard_def missing_column_def table_jan_def new_columns_def
      write_file_def print_def log_event_def BASE_API_def)

lemma main_referrers_down:
  "main argv_or env_t net_referrers_down ''now'' w0 =
     (Uncaught (HTTPError 500),
      \<lparr>fs = [CSV_FILE \<mapsto> Table table_jan],
       trace = [Request ''https://api.github.com/repos/o/r/traffic/clones'' ''t'',
                Request ''https://api.github.com/repos/o/r/traffic/views'' ''t'',
                Exists CSV_FILE, WriteFile CSV_FILE, Print (msg_created 4),
                Request ''https://api.github.com/repos/o/r/traffic/popular/referrers'' ''t'']\<rparr>)"
  by (simp add: main_def Let_def argv_or_def env_t_def fetch_referrers_def request_json_def
      net_jan_def net_referrers_down_def fetch_and_update_csv_def dict_get_def new_table_jan
      update_csv_def path_exists_def write_file_def print_def log_event_def w0_def BASE_API_def
      table_jan_def eval_nat_numeral)

lemma update_jan_again:
  "update_csv table_jan \<lparr>fs = (f(CSV_FILE \<mapsto> Table table_jan)), trace = tr\<rparr> =
     (Inr table_jan, \<lparr>fs = (f(CSV_FILE \<mapsto> Table table_jan)),
                      trace = tr @ [Exists CSV_FILE, ReadFile CSV_FILE, Print msg_nothing]\<rparr>)"
  by (simp add: update_csv_def path_exists_def read_csv_def log_event_def print_def Let_def
      table_jan_def new_columns_def column_def cell_of_def is_date_or_missing_def not_isin_def)

lemma main_other_after_jan:
  "fst (main argv_other env_t net_jan ''later'' (snd (main argv_or env_t net_jan ''now'' w0))) = Finished"
  unfolding main_jan snd_conv
  by (simp add: main_def Let_def argv_other_def env_t_def fetch_and_update_csv_def
      request_json_def net_jan_def dict_get_def new_table_jan update_csv_def path_exists_def
      read_csv_def fetch_referrers_def build_dashboard_def missing_column_def
      write_file_def log_event_def print_def CSV_FILE_def
      table_jan_def new_columns_def column_def cell_of_def is_date_or_missing_def not_isin_def)

section \<open>Where the report goes\<close>

lemma main_finished_files:
  assumes "main argv env net now w = (Finished, w')"
  shows "(\<exists>df df_ref. fs w' ''main.html'' =
            Some (Page \<lparr>h_owner = argv ! 1, h_repo = argv ! 2, h_page_date = now,
                         h_df = df, h_df_ref = df_ref\<rparr>))
       \<and> (\<forall>p. p \<noteq> ''main.html'' \<and> p \<noteq> CSV_FILE \<longrightarrow> fs w' p = fs w p)"
proof -
  from assms obtain token df w1 df_ref w2 where
    fe: "fetch_and_update_csv net (argv ! 1) (argv ! 2) token w = (Inr df, w1)" and
    re: "fetch_referrers net (argv ! 1) (argv ! 2) token w1 = (Inr df_ref, w2)" and
    bd: "build_dashboard (argv ! 1) (argv ! 2) df df_ref now ''main.html'' w2 = (Inr (), w')"
    by (rule main_finished)
  have f2: "fs w2 = fs w1" using re by (rule fetch_referrers_fs)
  have f3: "fs w' = (fs w2)(''main.html'' \<mapsto> Page \<lparr>h_owner = argv ! 1, h_repo = argv ! 2,
              h_page_date = now, h_df = df, h_df_ref = df_ref\<rparr>)"
    using bd by (rule build_dashboard_ok)
  have other: "fs w1 p = fs w p" if "p \<noteq> CSV_FILE" for p
    using fetch_fs_other [OF that, of net "argv ! 1" "argv ! 2" token w] fe by simp
  show ?thesis using f2 f3 other by simp
qed


text \<open>
  C10. The report of every completed run is the file \<open>main.html\<close>, whatever the owner and
  the repository: of two successive completed runs, each leaves in \<open>main.html\<close> the page of
  its own owner and repository, so the second replaces the report of the first, and no file
  other than \<open>main.html\<close> and the CSV file is changed.
\<close>

theorem report_written_to_main_html:
  assumes "main argv1 env1 net1 now1 w = (Finished, w1)"
    and "main argv2 env2 net2 now2 w1 = (Finished, w2)"
  shows "(\<exists>df df_ref. fs w1 ''main.html'' =
            Some (Page \<lparr>h_owner = argv1 ! 1, h_repo = argv1 ! 2, h_page_date = now1,
                         h_df = df, h_df_ref = df_ref\<rparr>))
       \<and> (\<exists>df df_ref. fs w2 ''main.html'' =
            Some (Page \<lparr>h_owner = argv2 ! 1, h_repo = argv2 ! 2, h_page_date = now2,
                         h_df = df, h_df_ref = df_ref\<rparr>))
       \<and> (\<forall>p. p \<noteq> ''main.html'' \<and> p \<noteq> CSV_FILE \<longrightarrow> fs w2 p = fs w p)"
  using main_finished_files [OF assms(1)] main_finished_files [OF assms(2)] by simp

theorem report_written_to_main_html_witness:
  "fst (main argv_or env_t net_jan ''now'' w0) = Finished
 \<and> fst (main argv_other env_t net_jan ''later'' (snd (main argv_or env_t net_jan ''now'' w0))) = Finished
 \<and> (\<exists>df df_ref.
       fs (snd (main argv_other env_t net_jan ''later'' (snd (main argv_or env_t net_jan ''now'' w0))))
          ''main.html'' =
       Some (Page \<lparr>h_owner = ''p'', h_repo = ''q'', h_page_date = ''later'',
                    h_df = df, h_df_ref = df_ref\<rparr>))"
proof -
  let ?w1 = "snd (main argv_or env_t net_jan ''now'' w0)"
  let ?w2 = "snd (main argv_other env_t net_jan ''later'' ?w1)"
  have f1: "fst (main argv_or env_t net_jan ''now'' w0) = Finished"
    by (simp add: main_jan)
  have f2: "fst (main argv_other env_t net_jan ''later'' ?w1) = Finished"
    by (rule main_other_after_jan)
  have r1: "main argv_or env_t net_jan ''now'' w0 = (Finished, ?w1)"
    using f1 by (simp add: prod_eq_iff)
  have r2: "main argv_other env_t net_jan ''later'' ?w1 = (Finished, ?w2)"
    using f2 by (simp add: prod_eq_iff)
  have "\<exists>df df_ref. fs ?w2 ''main.html'' =
          Some (Page \<lparr>h_owner = argv_other ! 1, h_repo = argv_other ! 2, h_page_date = ''later'',
                       h_df = df, h_df_ref = df_ref\<rparr>)"
    using report_written_to_main_html [OF r1 r2] by blast
  then have "\<exists>df df_ref. fs ?w2 ''main.html'' =
          Some (Page \<lparr>h_owner = ''p'', h_repo = ''q'', h_page_date = ''later'',
                       h_df = df, h_df_ref = df_ref\<rparr>)"
    by (simp add: argv_other_def)
  then show ?thesis using f1 f2 by blast
qed

section \<open>What a failed run leaves behind\<close>

text \<open>
  C3, as stated, fails: when the referrers request is refused after the two series were
  fetched, the run ends with an uncaught HTTPError, the CSV file has already been created
  and no page is written.
\<close>

theorem run_not_all_or_nothing_counterexample:
  "fst (main argv_or env_t net_referrers_down ''now'' w0) = Uncaught (HTTPError 500)
 \<and> fs (snd (main argv_or env_t net_referrers_down ''now'' w0)) CSV_FILE = Some (Table table_jan)
 \<and> fs (snd (main argv_or env_t net_referrers_down ''now'' w0)) ''main.html'' = None
 \<and> fs w0 CSV_FILE = None"
  unfolding main_referrers_down by (simp add: w0_def CSV_FILE_def)

text \<open>
  C3, amended. For a run that passed the pre-flight checks: an error raised inside
  \<open>fetch_and_update_csv\<close> (the clones request, the views request, the merge, the reading of
  the file) ends the run with every file as it was; an error of the referrers request ends
  the run with the CSV file as \<open>fetch_and_update_csv\<close> left it and nothing else changed; a
  run that completes leaves both the CSV table and the page; and a run that does not
  complete leaves \<open>main.html\<close> as it was.
\<close>

theorem run_failure_effects:
  assumes "length argv = 3" and "env ''GITHUB_TOKEN'' = Some token" and "token \<noteq> []"
    and "main argv env net now w = (out, w')"
  shows "(\<forall>e w1. fetch_and_update_csv net (argv ! 1) (argv ! 2) token w = (Inl e, w1) \<longrightarrow>
            out = Uncaught e \<and> fs w' = fs w)
       \<and> (\<forall>df w1 e w2. fetch_and_update_csv net (argv ! 1) (argv ! 2) token w = (Inr df, w1)
              \<and> fetch_referrers net (argv ! 1) (argv ! 2) token w1 = (Inl e, w2) \<longrightarrow>
            out = Uncaught e \<and> fs w' = (fs w)(CSV_FILE \<mapsto> Table df))
       \<and> (out = Finished \<longrightarrow>
            (\<exists>df h. fs w' CSV_FILE = Some (Table df) \<and> fs w' ''main.html'' = Some (Page h)))
       \<and> (out \<noteq> Finished \<longrightarrow> fs w' ''main.html'' = fs w ''main.html'')"
proof -
  let ?o = "argv ! 1" and ?r = "argv ! 2"
  obtain res w1 where fe: "fetch_and_update_csv net ?o ?r token w = (res, w1)"
    by (cases "fetch_and_update_csv net ?o ?r token w")
  have other: "fs w1 p = fs w p" if "p \<noteq> CSV_FILE" for p
    using fetch_fs_other [OF that, of net ?o ?r token w] fe by simp
  show ?thesis
  proof (cases res)
    case (Inl e)
    then have "out = Uncaught e" "w' = w1"
      using assms fe by (simp_all add: main_def)
    moreover have "fs w1 = fs w" using fe Inl fetch_error_fs by blast
    ultimately show ?thesis using fe Inl by simp
  next
    case (Inr df)
    have csv: "fs w1 CSV_FILE = Some (Table df)" using fe Inr fetch_ok_file by blast
    have w1_eq: "fs w1 = (fs w)(CSV_FILE \<mapsto> Table df)"
    proof
      fix p show "fs w1 p = ((fs w)(CSV_FILE \<mapsto> Table df)) p"
        using csv other by (cases "p = CSV_FILE") simp_all
    qed
    obtain rr w2 where re: "fetch_referrers net ?o ?r token w1 = (rr, w2)"
      by (cases "fetch_referrers net ?o ?r token w1")
    have f2: "fs w2 = fs w1" using re by (rule fetch_referrers_fs)
    show ?thesis
    proof (cases rr)
      case (Inl e)
      then have "out = Uncaught e" "w' = w2"
        using assms fe Inr re by (simp_all add: main_def)
      then show ?thesis using fe Inr re Inl f2 w1_eq csv_not_main by auto
    next
      case ref: (Inr df_ref)
      obtain rb w3 where bd: "build_dashboard ?o ?r df df_ref now ''main.html'' w2 = (rb, w3)"
        by (cases "build_dashboard ?o ?r df df_ref now ''main.html'' w2")
      show ?thesis
      proof (cases rb)
        case (Inl e)
        then have "out = Uncaught e" "w' = w3"
          using assms fe Inr re ref bd by (simp_all add: main_def)
        moreover have "w3 = w2" using bd Inl build_dashboard_error by blast
        ultimately show ?thesis using fe Inr re ref f2 w1_eq csv_not_main by auto
      next
        case ok: (Inr u)
        then have "out = Finished" "w' = w3"
          using assms fe Inr re ref bd by (simp_all add: main_def)
        moreover have "fs w3 = (fs w2)(''main.html'' \<mapsto> Page \<lparr>h_owner = ?o, h_repo = ?r,
              h_page_date = now, h_df = df, h_df_ref = df_ref\<rparr>)"
          using bd ok build_dashboard_ok by blast
        ultimately show ?thesis using fe Inr re ref f2 csv csv_not_main by auto
      qed
    qed
  qed
qed

theorem run_failure_effects_witness:
  "length argv_or = 3 \<and> env_t ''GITHUB_TOKEN'' = Some ''t'' \<and> ''t'' \<noteq> []
 \<and> fst (main argv_or env_t net_referrers_down ''now'' w0) \<noteq> Finished
 \<and> fs (snd (main argv_or env_t net_referrers_down ''now'' w0)) ''main.html'' = fs w0 ''main.html''"
proof -
  have h1: "length argv_or = 3" by (simp add: argv_or_def)
  have h2: "env_t ''GITHUB_TOKEN'' = Some ''t''" by (simp add: env_t_def)
  have h3: "''t'' \<noteq> []" by simp
  have h4: "main argv_or env_t net_referrers_down ''now'' w0 =
      (fst (main argv_or env_t net_referrers_down ''now'' w0),
       snd (main argv_or env_t net_referrers_down ''now'' w0))" by simp
  have nf: "fst (main argv_or env_t net_referrers_down ''now'' w0) \<noteq> Finished"
    by (simp add: main_referrers_down)
  have "fs (snd (main argv_or env_t net_referrers_down ''now'' w0)) ''main.html'' = fs w0 ''main.html''"
    using run_failure_effects [OF h1 h2 h3 h4] nf by blast
  then show ?thesis using h1 h2 h3 nf by blast
qed

section \<open>The outer join\<close>

text \<open>
  When both series hold a record, the new-data table has the five fixed columns, its dates
  are the dates of either series, and a date of one series only has one row for each
  record that series holds for it, with the other side's two metrics missing.
\<close>

lemma new_table_one_sided_dates:
  assumes "new_table clones views = Inr df"
  shows "columns df = new_columns
       \<and> set (column df ''date'') = DateC ` (fst ` timestamp ` set clones \<union> fst ` timestamp ` set views)
       \<and> (d \<notin> fst ` timestamp ` set views \<longrightarrow>
            mset (filter (\<lambda>row. cell_of new_columns ''date'' row = DateC d) (rows df))
              = mset (map (\<lambda>r. [DateC d, NumC (count_n r), NumC (uniques r), NaN, NaN])
                          (filter (\<lambda>r. fst (timestamp r) = d) clones)))
       \<and> (d \<notin> fst ` timestamp ` set clones \<longrightarrow>
            mset (filter (\<lambda>row. cell_of new_columns ''date'' row = DateC d) (rows df))
              = mset (map (\<lambda>r. [DateC d, NaN, NaN, NumC (count_n r), NumC (uniques r)])
                          (filter (\<lambda>r. fst (timestamp r) = d) views)))"
proof -
  let ?t = "\<lambda>r. (fst (timestamp r), count_n r, uniques r)"
  have left: "merge_rows (map ?t clones) (map ?t views) d
      = map (\<lambda>r. [DateC d, NumC (count_n r), NumC (uniques r), NaN, NaN])
            (filter (\<lambda>r. fst (timestamp r) = d) clones)"
    if "d \<notin> fst ` timestamp ` set views"
  proof -
    have "d \<notin> fst ` set (map ?t views)" using that by (auto simp add: image_iff)
    then show ?thesis
      by (simp add: merge_rows_left_only filter_map comp_def)
  qed
  have right: "merge_rows (map ?t clones) (map ?t views) d
      = map (\<lambda>r. [DateC d, NaN, NaN, NumC (count_n r), NumC (uniques r)])
            (filter (\<lambda>r. fst (timestamp r) = d) views)"
    if "d \<notin> fst ` timestamp ` set clones"
  proof -
    have "d \<notin> fst ` set (map ?t clones)" using that by (auto simp add: image_iff)
    then show ?thesis
      by (simp add: merge_rows_right_only filter_map comp_def)
  qed
  show ?thesis
    using new_table_columns [OF assms] new_table_date_set [OF assms]
      new_table_filter [OF assms, of d] left right
    by simp
qed

text \<open>
  C4. The claim fails when one of the two series is empty, the plainest case of dates
  present in one series only: with three clone records and no view record the frame of the
  views has no \<open>timestamp\<close> column, line 71 raises KeyError, and no merged table is built
  at all; the run ends after the two requests with nothing written. This is the defect of
  C2.
\<close>

theorem one_sided_series_key_error:
  "new_table [rec 1 10 1, rec 2 20 2, rec 3 30 3] [] = Inl (KeyError ''timestamp'')
 \<and> main argv_or env_t net_no_views ''now'' w0
       = (Uncaught (KeyError ''timestamp''),
          \<lparr>fs = Map.empty,
           trace = [Request ''https://api.github.com/repos/o/r/traffic/clones'' ''t'',
                    Request ''https://api.github.com/repos/o/r/traffic/views'' ''t'']\<rparr>)"
  by (simp add: main_def Let_def argv_or_def env_t_def fetch_and_update_csv_def request_json_def
      net_no_views_def w0_def log_event_def BASE_API_def dict_get_def new_table_def dated_def
      rec_def)

section \<open>Reconciling with the file\<close>

subsection \<open>Reading and updating the file\<close>

lemma read_csv_readable:
  assumes "fs w p = Some (Table df)" and "readable df"
  shows "read_csv p w = (Inr df, log_event (ReadFile p) w)"
  using assms by (simp add: read_csv_def readable_def Let_def)

lemma read_csv_ok_readable:
  assumes "read_csv p w = (Inr df, w')"
  shows "readable df \<and> w' = log_event (ReadFile p) w"
  using assms
  by (auto simp add: read_csv_def readable_def Let_def split: option.splits content.splits if_splits)

lemma columns_not_isin [simp]: "columns (not_isin a b) = columns a"
  by (simp add: not_isin_def)

lemma rows_not_isin:
  "rows (not_isin a b) = filter (\<lambda>r. cell_of (columns a) ''date'' r \<notin> set (column b ''date'')) (rows a)"
  by (simp add: not_isin_def)

lemma update_csv_cases:
  assumes "update_csv df_new w = (Inr df, w')"
  obtains
    (created) "fs w CSV_FILE = None" and "df = df_new" and "fs w' = (fs w)(CSV_FILE \<mapsto> Table df_new)"
  | (appended) df_exist where "fs w CSV_FILE = Some (Table df_exist)" and "readable df_exist"
      and "rows (not_isin df_new df_exist) \<noteq> []"
      and "df = sort_values (concat_frames df_exist (not_isin df_new df_exist))"
      and "fs w' = (fs w)(CSV_FILE \<mapsto> Table df)"
  | (unchanged) "fs w CSV_FILE = Some (Table df)" and "readable df"
      and "rows (not_isin df_new df) = []" and "fs w' = fs w"
proof (cases "fs w CSV_FILE = None")
  case True
  then have "df = df_new" "fs w' = (fs w)(CSV_FILE \<mapsto> Table df_new)"
    using assms by (auto simp add: update_csv_def path_exists_def Let_def)
  then show ?thesis using True created by blast
next
  case False
  let ?w1 = "log_event (Exists CSV_FILE) w"
  have pe: "path_exists CSV_FILE w = (True, ?w1)" using False by (simp add: path_exists_def)
  obtain res w2 where rd: "read_csv CSV_FILE ?w1 = (res, w2)" by (cases "read_csv CSV_FILE ?w1")
  have f2: "fs w2 = fs w" using fs_read_csv [of CSV_FILE ?w1] rd by simp
  show ?thesis
  proof (cases res)
    case (Inl e)
    then show ?thesis using assms pe rd by (simp add: update_csv_def)
  next
    case (Inr df_exist)
    have ex: "fs w CSV_FILE = Some (Table df_exist)"
      using read_csv_ok [of CSV_FILE ?w1 df_exist w2] rd Inr by simp
    have rdb: "readable df_exist" using read_csv_ok_readable rd Inr by blast
    show ?thesis
    proof (cases "rows (not_isin df_new df_exist) = []")
      case True
      then have "df = df_exist" "fs w' = fs w"
        using assms pe rd Inr f2 by (auto simp add: update_csv_def Let_def)
      then show ?thesis using ex rdb True unchanged by blast
    next
      case False
      then have "df = sort_values (concat_frames df_exist (not_isin df_new df_exist))"
        "fs w' = (fs w)(CSV_FILE \<mapsto> Table df)"
        using assms pe rd Inr f2 by (auto simp add: update_csv_def Let_def)
      then show ?thesis using ex rdb False appended by blast
    qed
  qed
qed

lemma update_csv_unchanged:
  assumes "fs w CSV_FILE = Some (Table df)" and "readable df" and "rows (not_isin df_new df) = []"
  shows "update_csv df_new w =
          (Inr df, w\<lparr>trace := trace w @ [Exists CSV_FILE, ReadFile CSV_FILE, Print msg_nothing]\<rparr>)"
proof -
  let ?w1 = "log_event (Exists CSV_FILE) w"
  have pe: "path_exists CSV_FILE w = (True, ?w1)" using assms(1) by (simp add: path_exists_def)
  have "fs ?w1 CSV_FILE = Some (Table df)" using assms(1) by simp
  then have rd: "read_csv CSV_FILE ?w1 = (Inr df, log_event (ReadFile CSV_FILE) ?w1)"
    using assms(2) by (rule read_csv_readable)
  show ?thesis
    using pe rd assms(3) by (simp add: update_csv_def Let_def print_def log_event_def)
qed

lemma fetch_ok_cases:
  assumes "fetch_and_update_csv net owner repo token w = (Inr df, w')"
  obtains s1 jc s2 jv df_new where
    "traffic_api net (BASE_API owner repo @ ''/traffic/clones'') token = Response s1 jc"
    and "traffic_api net (BASE_API owner repo @ ''/traffic/views'') token = Response s2 jv"
    and "\<not> (400 \<le> s1 \<and> s1 < 600)" and "\<not> (400 \<le> s2 \<and> s2 < 600)"
    and "new_table (dict_get jc ''clones'') (dict_get jv ''views'') = Inr df_new"
    and "update_csv df_new
           (log_event (Request (BASE_API owner repo @ ''/traffic/views'') token)
             (log_event (Request (BASE_API owner repo @ ''/traffic/clones'') token) w)) = (Inr df, w')"
  using assms
  by (auto simp add: fetch_and_update_csv_def request_json_def Let_def
      split: response.splits if_splits sum.splits)

lemma is_date_missing: "is_date c \<Longrightarrow> is_date_or_missing c"
  by (cases c) (simp_all add: is_date_def is_date_or_missing_def)

lemma new_table_readable:
  assumes "new_table clones views = Inr df"
  shows "readable df"
proof -
  have "list_all (\<lambda>r. length r = length (columns df)) (rows df)"
    using new_table_rows [OF assms] new_table_columns [OF assms] by (simp add: list_all_iff)
  moreover have "list_all is_date_or_missing (column df ''date'')"
    using new_table_dates [OF assms] is_date_missing by (simp add: list_all_iff)
  moreover have "rows df \<noteq> []"
  proof
    assume "rows df = []"
    then have "set (column df ''date'') = {}" by (simp add: column_def)
    then have "set clones = {}" using new_table_date_set [OF assms] by simp
    then show False using new_table_ok [OF assms] by simp
  qed
  ultimately show ?thesis using new_table_columns [OF assms] by (simp add: readable_def)
qed

lemma not_isin_self: "rows (not_isin a a) = []"
  by (simp add: rows_not_isin column_def filter_empty_conv)

lemma column_appended:
  assumes "''date'' \<in> set (columns e)" and "''date'' \<in> set (columns n)"
  shows "mset (column (sort_values (concat_frames e (not_isin n e))) ''date'')
           = mset (column e ''date'' @ column (not_isin n e) ''date'')"
proof -
  have "column (concat_frames e (not_isin n e)) ''date''
        = column e ''date'' @ column (not_isin n e) ''date''"
    using column_concat_frames [OF assms(1), of "not_isin n e"] assms(2) by (simp add: column_def)
  then show ?thesis by (simp only: mset_column_sort_values)
qed

lemma set_column_appended:
  assumes "''date'' \<in> set (columns e)" and "''date'' \<in> set (columns n)"
  shows "set (column (sort_values (concat_frames e (not_isin n e))) ''date'')
           = set (column e ''date'') \<union> set (column n ''date'')"
proof -
  have "set (column (sort_values (concat_frames e (not_isin n e))) ''date'')
        = set (column e ''date'') \<union> set (column (not_isin n e) ''date'')"
    using column_appended [OF assms] by (metis mset_eq_setD set_append)
  moreover have "set (column (not_isin n e) ''date'') = set (column n ''date'') - set (column e ''date'')"
    by (auto simp add: column_def rows_not_isin)
  ultimately show ?thesis by auto
qed

lemma readable_appended:
  assumes "readable e" and "readable n"
  shows "readable (sort_values (concat_frames e (not_isin n e)))"
proof -
  let ?df = "sort_values (concat_frames e (not_isin n e))"
  have de: "''date'' \<in> set (columns e)" and dn: "''date'' \<in> set (columns n)"
    using assms by (simp_all add: readable_def)
  have c: "''date'' \<in> set (columns ?df)" using de by (simp add: columns_concat_frames)
  have r: "list_all (\<lambda>r. length r = length (columns ?df)) (rows ?df)"
    using rows_concat_rect [of _ e "not_isin n e"] by (simp add: list_all_iff)
  have "list_all is_date_or_missing (column e ''date'')" "list_all is_date_or_missing (column n ''date'')"
    using assms by (simp_all add: readable_def)
  then have d: "list_all is_date_or_missing (column ?df ''date'')"
    unfolding list_all_iff set_column_appended [OF de dn] by blast
  have "rows e \<noteq> []" using assms(1) by (simp add: readable_def)
  then have "set (column e ''date'') \<noteq> {}" by (simp add: column_def)
  then have ne: "set (column ?df ''date'') \<noteq> {}"
    unfolding set_column_appended [OF de dn] by simp
  have n: "rows ?df \<noteq> []"
  proof
    assume "rows ?df = []"
    then have "column ?df ''date'' = []" by (simp only: column_def list.map)
    then show False using ne by (simp only: list.set not_True_eq_False)
  qed
  show ?thesis using c r d n by (simp add: readable_def)
qed

lemma not_isin_empty_iff:
  "rows (not_isin n e) = [] \<longleftrightarrow> set (column n ''date'') \<subseteq> set (column e ''date'')"
  by (auto simp add: rows_not_isin column_def filter_empty_conv)

lemma update_csv_post:
  assumes "new_table clones views = Inr df_new" and "update_csv df_new w = (Inr df, w')"
  shows "fs w' CSV_FILE = Some (Table df) \<and> readable df \<and> rows (not_isin df_new df) = []"
proof -
  have rn: "readable df_new" using assms(1) by (rule new_table_readable)
  have fl: "fs w' CSV_FILE = Some (Table df)" using assms(2) by (rule update_csv_ok_file)
  from assms(2) have "readable df \<and> rows (not_isin df_new df) = []"
  proof (cases rule: update_csv_cases)
    case created
    then show ?thesis using rn not_isin_self by simp
  next
    case (appended df_exist)
    have de: "''date'' \<in> set (columns df_exist)" and dn: "''date'' \<in> set (columns df_new)"
      using appended(2) rn by (simp_all add: readable_def)
    have "readable df" using appended(2,4) rn readable_appended by simp
    moreover have "set (column df_new ''date'') \<subseteq> set (column df ''date'')"
      unfolding appended(4) set_column_appended [OF de dn] by blast
    ultimately show ?thesis by (simp add: not_isin_empty_iff)
  next
    case unchanged
    then show ?thesis by simp
  qed
  then show ?thesis using fl by simp
qed

section \<open>Idempotence\<close>

text \<open>
  C1. After a call of \<open>fetch_and_update_csv\<close> that returned, a second call with the same
  answers of the platform, started in any world that holds the CSV file the first call
  left, returns the same table and does exactly this: the two requests, the existence test,
  the reading of the file and the line saying there is nothing new to add; it writes no file, so
  the persisted dataset is the same before and after.
\<close>

theorem second_run_leaves_file:
  assumes "fetch_and_update_csv net owner repo token w = (Inr df, w1)"
    and "fs w2 CSV_FILE = fs w1 CSV_FILE"
  shows "fetch_and_update_csv net owner repo token w2 =
           (Inr df, w2\<lparr>trace := trace w2 @
              [Request (BASE_API owner repo @ ''/traffic/clones'') token,
               Request (BASE_API owner repo @ ''/traffic/views'') token,
               Exists CSV_FILE, ReadFile CSV_FILE, Print msg_nothing]\<rparr>)"
proof -
  let ?u1 = "BASE_API owner repo @ ''/traffic/clones''"
  let ?u2 = "BASE_API owner repo @ ''/traffic/views''"
  from assms(1) obtain s1 jc s2 jv df_new where
    a1: "traffic_api net ?u1 token = Response s1 jc" and
    a2: "traffic_api net ?u2 token = Response s2 jv" and
    ok1: "\<not> (400 \<le> s1 \<and> s1 < 600)" and ok2: "\<not> (400 \<le> s2 \<and> s2 < 600)" and
    nt: "new_table (dict_get jc ''clones'') (dict_get jv ''views'') = Inr df_new" and
    up: "update_csv df_new (log_event (Request ?u2 token) (log_event (Request ?u1 token) w)) = (Inr df, w1)"
    by (rule fetch_ok_cases)
  have post: "fs w1 CSV_FILE = Some (Table df)" "readable df" "rows (not_isin df_new df) = []"
    using update_csv_post [OF nt up] by simp_all
  let ?w = "log_event (Request ?u2 token) (log_event (Request ?u1 token) w2)"
  have "fs ?w CSV_FILE = Some (Table df)" using post(1) assms(2) by simp
  then have "update_csv df_new ?w =
      (Inr df, ?w\<lparr>trace := trace ?w @ [Exists CSV_FILE, ReadFile CSV_FILE, Print msg_nothing]\<rparr>)"
    using post(2,3) by (rule update_csv_unchanged)
  then show ?thesis
    using a1 a2 ok1 ok2 nt
    by (simp add: fetch_and_update_csv_def request_json_def Let_def log_event_def)
qed

theorem second_run_leaves_file_witness:
  "fetch_and_update_csv net_jan ''o'' ''r'' ''t'' w0 = (Inr table_jan, w_jan)
 \<and> fs w_jan CSV_FILE = fs w_jan CSV_FILE
 \<and> fetch_and_update_csv net_jan ''o'' ''r'' ''t'' w_jan =
       (Inr table_jan, w_jan\<lparr>trace := trace w_jan @
          [Request (BASE_API ''o'' ''r'' @ ''/traffic/clones'') ''t'',
           Request (BASE_API ''o'' ''r'' @ ''/traffic/views'') ''t'',
           Exists CSV_FILE, ReadFile CSV_FILE, Print msg_nothing]\<rparr>)"
proof -
  have h1: "fetch_and_update_csv net_jan ''o'' ''r'' ''t'' w0 = (Inr table_jan, w_jan)"
    by (simp add: fetch_jan w_jan_def)
  have h2: "fs w_jan CSV_FILE = fs w_jan CSV_FILE" by simp
  show ?thesis using second_run_leaves_file [OF h1 h2] h1 by simp
qed

section \<open>Appending to a file with the fixed header\<close>

lemma concat_frames_same:
  assumes "columns a = cols" and "columns b = cols" and "distinct cols"
    and "\<forall>r \<in> set (rows a). length r = length cols"
    and "\<forall>r \<in> set (rows b). length r = length cols"
  shows "concat_frames a b = \<lparr>columns = cols, rows = rows a @ rows b\<rparr>"
proof -
  have c: "columns a @ filter (\<lambda>c. c \<notin> set (columns a)) (columns b) = cols"
    using assms(1,2) by simp
  have "map (reindex cols cols) rs = rs" if "\<forall>r \<in> set rs. length r = length cols" for rs
    using that reindex_same [OF assms(3)] by (simp add: map_idI)
  then show ?thesis
    using assms by (simp add: concat_frames_def Let_def)
qed

lemma readable_rect:
  assumes "readable df" and "r \<in> set (rows df)"
  shows "length r = length (columns df)"
  using assms by (simp add: readable_def list_all_iff)

lemma appended_same_header:
  assumes "new_table clones views = Inr df_new" and "readable e" and "columns e = new_columns"
  shows "concat_frames e (not_isin df_new e) =
           \<lparr>columns = new_columns, rows = rows e @ rows (not_isin df_new e)\<rparr>"
proof (rule concat_frames_same)
  show "columns e = new_columns" by (rule assms(3))
  show "columns (not_isin df_new e) = new_columns"
    using new_table_columns [OF assms(1)] by simp
  show "distinct new_columns" by simp
  show "\<forall>r \<in> set (rows e). length r = length new_columns"
    using readable_rect [OF assms(2)] assms(3) by simp
  show "\<forall>r \<in> set (rows (not_isin df_new e)). length r = length new_columns"
    using new_table_rows [OF assms(1)] by (simp add: rows_not_isin)
qed

lemma update_later:
  "new_table [rec 2 21 5, rec 3 31 6, rec 4 40 4] [rec 2 201 25, rec 3 301 36, rec 4 400 44] = Inr table_later"
  by (simp add: new_table_def dated_def rec_def merge_outer_def merge_rows_def sort_values_def
      table_later_def new_columns_def cell_of_def date_key_def)

lemma update_old_later:
  "update_csv table_later w_old =
     (Inr table_merged,
      \<lparr>fs = [CSV_FILE \<mapsto> Table table_merged],
       trace = [Exists CSV_FILE, ReadFile CSV_FILE, WriteFile CSV_FILE, Print (msg_added 1)]\<rparr>)"
  by (simp add: update_csv_def path_exists_def read_csv_def log_event_def print_def write_file_def
      Let_def w_old_def table_old_def table_later_def table_merged_def new_columns_def column_def
      cell_of_def is_date_or_missing_def not_isin_def concat_frames_def reindex_def sort_values_def
      date_key_def)

lemma rows_untouched_update:
  assumes "new_table clones views = Inr df_new"
    and "fs w CSV_FILE = Some (Table df_exist)" and "columns df_exist = new_columns"
    and "update_csv df_new w = (Inr df, w')"
  shows "fs w' CSV_FILE = Some (Table df) \<and> columns df = new_columns
       \<and> mset (rows df) = mset (rows df_exist)
            + mset (filter (\<lambda>r. cell_of new_columns ''date'' r \<notin> set (column df_exist ''date'')) (rows df_new))
       \<and> (\<forall>c \<in> set (column df_exist ''date'').
             filter_mset (\<lambda>r. cell_of new_columns ''date'' r = c) (mset (rows df))
               = filter_mset (\<lambda>r. cell_of new_columns ''date'' r = c) (mset (rows df_exist)))"
proof -
  let ?new = "filter (\<lambda>r. cell_of new_columns ''date'' r \<notin> set (column df_exist ''date'')) (rows df_new)"
  have cn: "columns df_new = new_columns" using assms(1) by (rule new_table_columns)
  have ni: "rows (not_isin df_new e) = filter (\<lambda>r. cell_of new_columns ''date'' r \<notin> set (column e ''date'')) (rows df_new)" for e
    by (simp add: rows_not_isin cn)
  have fl: "fs w' CSV_FILE = Some (Table df)" using assms(4) by (rule update_csv_ok_file)
  from assms(4) have main: "columns df = new_columns \<and> mset (rows df) = mset (rows df_exist) + mset ?new"
  proof (cases rule: update_csv_cases)
    case created
    then show ?thesis using assms(2) by simp
  next
    case (appended e)
    then have e: "e = df_exist" using assms(2) by simp
    have "concat_frames e (not_isin df_new e) = \<lparr>columns = new_columns, rows = rows e @ rows (not_isin df_new e)\<rparr>"
      using assms(1) appended(2) assms(3) e by (intro appended_same_header) simp_all
    then show ?thesis using appended(4) e ni by simp
  next
    case unchanged
    then have "df = df_exist" using assms(2) by simp
    then show ?thesis using unchanged(3) assms(3) ni by simp
  qed
  have "filter_mset (\<lambda>r. cell_of new_columns ''date'' r = c) (mset ?new) = {#}"
    if "c \<in> set (column df_exist ''date'')" for c
    using that by auto
  then show ?thesis using fl main by simp
qed

section \<open>Where a run can change the CSV file\<close>

lemma fetch_csv_cases:
  obtains (same) "fs (snd (fetch_and_update_csv net owner repo token w)) = fs w"
  | (updated) u1 u2 s1 jc s2 jv df_new w2 where
      "traffic_api net u1 token = Response s1 jc" and "traffic_api net u2 token = Response s2 jv"
      and "new_table (dict_get jc ''clones'') (dict_get jv ''views'') = Inr df_new"
      and "fs w2 = fs w"
      and "fetch_and_update_csv net owner repo token w = update_csv df_new w2"
proof -
  obtain res w' where fe: "fetch_and_update_csv net owner repo token w = (res, w')"
    by (cases "fetch_and_update_csv net owner repo token w")
  show ?thesis
  proof (cases res)
    case (Inl e)
    then have "fs w' = fs w" using fe fetch_error_fs by blast
    then have "fs (snd (fetch_and_update_csv net owner repo token w)) = fs w" using fe by simp
    then show ?thesis by (rule same)
  next
    case (Inr df)
    let ?u1 = "BASE_API owner repo @ ''/traffic/clones''"
    let ?u2 = "BASE_API owner repo @ ''/traffic/views''"
    let ?w2 = "log_event (Request ?u2 token) (log_event (Request ?u1 token) w)"
    have fe': "fetch_and_update_csv net owner repo token w = (Inr df, w')" using fe Inr by simp
    from fe' show ?thesis
    proof (rule fetch_ok_cases)
      fix s1 jc s2 jv df_new
      assume a1: "traffic_api net ?u1 token = Response s1 jc"
        and a2: "traffic_api net ?u2 token = Response s2 jv"
        and nt: "new_table (dict_get jc ''clones'') (dict_get jv ''views'') = Inr df_new"
        and up: "update_csv df_new ?w2 = (Inr df, w')"
      have f: "fs ?w2 = fs w" by simp
      have eq: "fetch_and_update_csv net owner repo token w = update_csv df_new ?w2"
        by (simp only: fe' up)
      show ?thesis using a1 a2 nt f eq by (rule updated)
    qed
  qed
qed

lemma main_csv_file:
  "fs (snd (main argv env net now w)) CSV_FILE = fs w CSV_FILE
   \<or> (\<exists>token. fs (snd (main argv env net now w)) CSV_FILE
        = fs (snd (fetch_and_update_csv net (argv ! 1) (argv ! 2) token w)) CSV_FILE)"
proof (cases "length argv = 3 \<and> (\<exists>t. env ''GITHUB_TOKEN'' = Some t \<and> t \<noteq> [])")
  case False
  then have "fs (snd (main argv env net now w)) = fs w"
    by (auto simp add: main_def Let_def split: option.splits)
  then show ?thesis by simp
next
  case True
  then obtain token where tk: "length argv = 3" "env ''GITHUB_TOKEN'' = Some token" "token \<noteq> []"
    by blast
  let ?o = "argv ! 1" and ?r = "argv ! 2"
  obtain res w1 where fe: "fetch_and_update_csv net ?o ?r token w = (res, w1)"
    by (cases "fetch_and_update_csv net ?o ?r token w")
  have "fs (snd (main argv env net now w)) CSV_FILE = fs w1 CSV_FILE"
  proof (cases res)
    case (Inl e)
    then show ?thesis using tk fe by (simp add: main_def)
  next
    case (Inr df)
    obtain rr w2 where re: "fetch_referrers net ?o ?r token w1 = (rr, w2)"
      by (cases "fetch_referrers net ?o ?r token w1")
    have f2: "fs w2 = fs w1" using re by (rule fetch_referrers_fs)
    show ?thesis
    proof (cases rr)
      case (Inl e)
      then show ?thesis using tk fe Inr re f2 by (simp add: main_def)
    next
      case ref: (Inr df_ref)
      obtain rb w3 where bd: "build_dashboard ?o ?r df df_ref now ''main.html'' w2 = (rb, w3)"
        by (cases "build_dashboard ?o ?r df df_ref now ''main.html'' w2")
      have "fs w3 CSV_FILE = fs w2 CSV_FILE"
      proof (cases rb)
        case (Inl e)
        then show ?thesis using bd build_dashboard_error by blast
      next
        case (Inr u)
        then show ?thesis using bd build_dashboard_ok [of ?o ?r df df_ref now "''main.html''" w2 u w3] csv_not_main
          by simp
      qed
      then show ?thesis using tk fe Inr re ref bd f2
        by (cases rb) (simp_all add: main_def)
    qed
  qed
  then have "fs (snd (main argv env net now w)) CSV_FILE
        = fs (snd (fetch_and_update_csv net ?o ?r token w)) CSV_FILE" using fe by simp
  then show ?thesis by blast
qed

lemma main_preserves:
  assumes start: "P (fs w CSV_FILE)"
    and step: "\<And>u1 u2 t s1 jc s2 jv df_new w2.
        traffic_api net u1 t = Response s1 jc \<Longrightarrow> traffic_api net u2 t = Response s2 jv \<Longrightarrow>
        new_table (dict_get jc ''clones'') (dict_get jv ''views'') = Inr df_new \<Longrightarrow>
        fs w2 = fs w \<Longrightarrow> P (fs (snd (update_csv df_new w2)) CSV_FILE)"
  shows "P (fs (snd (main argv env net now w)) CSV_FILE)"
proof -
  have fetch: "P (fs (snd (fetch_and_update_csv net owner repo token w)) CSV_FILE)" for owner repo token
  proof -
    show ?thesis
    proof (cases rule: fetch_csv_cases [of net owner repo token w])
      case same
      then show ?thesis using start by simp
    next
      case (updated u1 u2 s1 jc s2 jv df_new w2)
      have "P (fs (snd (update_csv df_new w2)) CSV_FILE)"
        using updated(1,2,3,4) by (rule step)
      then show ?thesis by (simp only: updated(5))
    qed
  qed
  from main_csv_file [of argv env net now w] show ?thesis
  proof (elim disjE exE)
    assume "fs (snd (main argv env net now w)) CSV_FILE = fs w CSV_FILE"
    then show ?thesis using start by simp
  next
    fix token
    assume "fs (snd (main argv env net now w)) CSV_FILE
        = fs (snd (fetch_and_update_csv net (argv ! 1) (argv ! 2) token w)) CSV_FILE"
    then show ?thesis using fetch by simp
  qed
qed

section \<open>Dates only accumulate\<close>

lemma persisted_dates_update:
  "persisted_dates w \<subseteq># persisted_dates (snd (update_csv df_new w))"
proof -
  obtain res w' where up: "update_csv df_new w = (res, w')" by (cases "update_csv df_new w")
  show ?thesis
  proof (cases res)
    case (Inl e)
    then have "fs w' = fs w" using up update_csv_error_fs by blast
    then show ?thesis using up by (simp add: persisted_dates_def)
  next
    case (Inr df)
    then have u: "update_csv df_new w = (Inr df, w')" using up by simp
    have fl: "fs w' CSV_FILE = Some (Table df)" using u by (rule update_csv_ok_file)
    from u have "persisted_dates w \<subseteq># mset (column df ''date'')"
    proof (cases rule: update_csv_cases)
      case created
      then show ?thesis by (simp add: persisted_dates_def)
    next
      case (appended e)
      have de: "''date'' \<in> set (columns e)" using appended(2) by (simp add: readable_def)
      show ?thesis
        using appended(1,4) column_concat_frames [OF de, of "not_isin df_new e"]
        by (simp add: persisted_dates_def)
    next
      case unchanged
      then show ?thesis by (simp add: persisted_dates_def)
    qed
    then show ?thesis using up fl by (simp add: persisted_dates_def)
  qed
qed

lemma persisted_dates_main:
  "persisted_dates w \<subseteq># persisted_dates (snd (main argv env net now w))
 \<and> set_mset (persisted_dates w) \<subseteq> set_mset (persisted_dates (snd (main argv env net now w)))"
proof -
  let ?P = "\<lambda>c. persisted_dates w \<subseteq># (case c of Some (Table df) \<Rightarrow> mset (column df ''date'') | _ \<Rightarrow> {#})"
  have "?P (fs (snd (main argv env net now w)) CSV_FILE)"
  proof (rule main_preserves)
    show "?P (fs w CSV_FILE)" by (simp add: persisted_dates_def)
  next
    fix df_new and w2 :: world assume "fs w2 = fs w"
    then have "persisted_dates w2 = persisted_dates w" by (simp add: persisted_dates_def)
    then show "?P (fs (snd (update_csv df_new w2)) CSV_FILE)"
      using persisted_dates_update [of w2 df_new] by (simp add: persisted_dates_def)
  qed
  then have "persisted_dates w \<subseteq># persisted_dates (snd (main argv env net now w))"
    by (simp add: persisted_dates_def)
  then show ?thesis by (simp add: set_mset_mono)
qed

section \<open>The invariants of the file\<close>

subsection \<open>The file stays strictly ascending\<close>

lemma new_table_ascending:
  assumes "new_table clones views = Inr df"
    and "distinct (map (\<lambda>r. fst (timestamp r)) clones)"
    and "distinct (map (\<lambda>r. fst (timestamp r)) views)"
  shows "strictly_ascending df"
proof -
  let ?l = "map (\<lambda>r. (fst (timestamp r), count_n r, uniques r)) clones"
  let ?r = "map (\<lambda>r. (fst (timestamp r), count_n r, uniques r)) views"
  let ?f = "\<lparr>columns = new_columns, rows = merge_outer ?l ?r\<rparr>"
  have dl: "distinct (map fst ?l)" using assms(2) by (simp add: comp_def)
  have dr: "distinct (map fst ?r)" using assms(3) by (simp add: comp_def)
  have col: "column ?f ''date'' = map DateC (sort (remdups (map fst ?l @ map fst ?r)))"
    using column_merge_outer_distinct [OF dl dr] by (simp add: column_def)
  have a: "list_all is_date (column ?f ''date'')"
    unfolding col by (simp add: list_all_iff is_date_def)
  have d: "distinct (column ?f ''date'')"
    unfolding col by (simp add: distinct_map inj_on_def)
  have "df = sort_values ?f" using new_table_ok [OF assms(1)] by simp
  then show ?thesis using strictly_ascending_sort_values [OF a d] by simp
qed

lemma column_not_isin:
  "column (not_isin n e) c' = map (cell_of (columns n) c')
      (filter (\<lambda>r. cell_of (columns n) ''date'' r \<notin> set (column e ''date'')) (rows n))"
  by (simp add: column_def rows_not_isin)

lemma date_column_not_isin:
  "column (not_isin n e) ''date'' = filter (\<lambda>c. c \<notin> set (column e ''date'')) (column n ''date'')"
  by (simp add: column_def rows_not_isin filter_map comp_def)

lemma date_column_concat:
  assumes "''date'' \<in> set (columns e)" and "''date'' \<in> set (columns n)"
  shows "column (concat_frames e (not_isin n e)) ''date''
           = column e ''date'' @ filter (\<lambda>c. c \<notin> set (column e ''date'')) (column n ''date'')"
proof -
  have "column (concat_frames e (not_isin n e)) ''date''
        = column e ''date'' @ column (not_isin n e) ''date''"
    using column_concat_frames [OF assms(1), of "not_isin n e"] assms(2) by (simp add: column_def)
  then show ?thesis by (simp only: date_column_not_isin)
qed

lemma appended_ascending:
  assumes "strictly_ascending e" and "strictly_ascending n"
    and "''date'' \<in> set (columns e)" and "''date'' \<in> set (columns n)"
  shows "strictly_ascending (sort_values (concat_frames e (not_isin n e)))"
proof (rule strictly_ascending_sort_values)
  let ?xs = "column e ''date''" and ?ys = "column n ''date''"
  have col: "column (concat_frames e (not_isin n e)) ''date'' = ?xs @ filter (\<lambda>c. c \<notin> set ?xs) ?ys"
    using assms(3,4) by (rule date_column_concat)
  have "list_all is_date ?xs" "list_all is_date ?ys"
    using assms(1,2) by (simp_all add: strictly_ascending_def)
  then show "list_all is_date (column (concat_frames e (not_isin n e)) ''date'')"
    unfolding col by (auto simp add: list_all_iff)
  have "distinct ?xs" "distinct ?ys"
    using assms(1,2) by (simp_all add: strictly_ascending_distinct)
  then show "distinct (column (concat_frames e (not_isin n e)) ''date'')"
    unfolding col by auto
qed

lemma ascending_update:
  assumes nt: "new_table clones views = Inr df_new"
    and uc: "distinct (map (\<lambda>r. fst (timestamp r)) clones)"
    and uv: "distinct (map (\<lambda>r. fst (timestamp r)) views)"
    and start: "ascending_file (fs w CSV_FILE)"
  shows "ascending_file (fs (snd (update_csv df_new w)) CSV_FILE)"
proof -
  have an: "strictly_ascending df_new" using nt uc uv by (rule new_table_ascending)
  have dn: "''date'' \<in> set (columns df_new)" using new_table_columns [OF nt] by simp
  obtain res w' where up: "update_csv df_new w = (res, w')" by (cases "update_csv df_new w")
  show ?thesis
  proof (cases res)
    case (Inl e)
    then have "fs w' = fs w" using up update_csv_error_fs by blast
    then show ?thesis using up start by simp
  next
    case (Inr df)
    then have u: "update_csv df_new w = (Inr df, w')" using up by simp
    have fl: "fs w' CSV_FILE = Some (Table df)" using u by (rule update_csv_ok_file)
    from u have "strictly_ascending df"
    proof (cases rule: update_csv_cases)
      case created
      then show ?thesis using an by simp
    next
      case (appended e)
      have ae: "strictly_ascending e" using start appended(1) by (simp add: ascending_file_def)
      have de: "''date'' \<in> set (columns e)" using appended(2) by (simp add: readable_def)
      show ?thesis unfolding appended(4) using ae an de dn by (rule appended_ascending)
    next
      case unchanged
      then show ?thesis using start by (simp add: ascending_file_def)
    qed
    then show ?thesis using up fl by (simp add: ascending_file_def)
  qed
qed

subsection \<open>The file keeps the fixed header\<close>

lemma well_formed_update:
  assumes nt: "new_table clones views = Inr df_new"
    and start: "well_formed_file (fs w CSV_FILE)"
  shows "well_formed_file (fs (snd (update_csv df_new w)) CSV_FILE)"
proof -
  have cn: "columns df_new = new_columns" using nt by (rule new_table_columns)
  have rn: "\<forall>r \<in> set (rows df_new). length r = length new_columns"
    using new_table_rows [OF nt] by simp
  obtain res w' where up: "update_csv df_new w = (res, w')" by (cases "update_csv df_new w")
  show ?thesis
  proof (cases res)
    case (Inl e)
    then have "fs w' = fs w" using up update_csv_error_fs by blast
    then show ?thesis using up start by simp
  next
    case (Inr df)
    then have u: "update_csv df_new w = (Inr df, w')" using up by simp
    have fl: "fs w' CSV_FILE = Some (Table df)" using u by (rule update_csv_ok_file)
    from u have "columns df = new_columns \<and> (\<forall>r \<in> set (rows df). length r = length new_columns)"
    proof (cases rule: update_csv_cases)
      case created
      then show ?thesis using cn rn by simp
    next
      case (appended e)
      have ce: "columns e = new_columns" and re: "\<forall>r \<in> set (rows e). length r = length new_columns"
        using start appended(1) by (simp_all add: well_formed_file_def list_all_iff)
      have "concat_frames e (not_isin df_new e)
              = \<lparr>columns = new_columns, rows = rows e @ rows (not_isin df_new e)\<rparr>"
        using nt appended(2) ce by (rule appended_same_header)
      then show ?thesis using appended(4) re rn by (auto simp add: rows_not_isin)
    next
      case unchanged
      then show ?thesis using start by (simp add: well_formed_file_def list_all_iff)
    qed
    then show ?thesis using up fl by (simp add: well_formed_file_def list_all_iff)
  qed
qed

subsection \<open>Successive runs\<close>

lemma runs_preserves:
  assumes "P (fs w CSV_FILE)"
    and "\<And>a w. a \<in> set inputs \<Longrightarrow> P (fs w CSV_FILE) \<Longrightarrow>
           P (fs (snd (main (r_argv a) (r_env a) (r_net a) (r_now a) w)) CSV_FILE)"
  shows "P (fs (runs inputs w) CSV_FILE)"
  using assms
proof (induction inputs arbitrary: w)
  case Nil
  then show ?case by simp
next
  case (Cons a as)
  have "P (fs (snd (main (r_argv a) (r_env a) (r_net a) (r_now a) w)) CSV_FILE)"
    using Cons.prems by simp
  then show ?case using Cons.IH Cons.prems(2) by simp
qed

lemma main_ascending:
  assumes "unique_dates net" and "ascending_file (fs w CSV_FILE)"
  shows "ascending_file (fs (snd (main argv env net now w)) CSV_FILE)"
  using assms(2)
proof (rule main_preserves)
  fix u1 u2 t s1 jc s2 jv df_new and w2 :: world
  assume a1: "traffic_api net u1 t = Response s1 jc" and a2: "traffic_api net u2 t = Response s2 jv"
    and nt: "new_table (dict_get jc ''clones'') (dict_get jv ''views'') = Inr df_new"
    and f: "fs w2 = fs w"
  have uc: "distinct (map (\<lambda>r. fst (timestamp r)) (dict_get jc ''clones''))"
    using assms(1) a1 unfolding unique_dates_def by blast
  have uv: "distinct (map (\<lambda>r. fst (timestamp r)) (dict_get jv ''views''))"
    using assms(1) a2 unfolding unique_dates_def by blast
  have "ascending_file (fs w2 CSV_FILE)" using assms(2) f by simp
  with nt uc uv show "ascending_file (fs (snd (update_csv df_new w2)) CSV_FILE)"
    by (rule ascending_update)
qed

lemma main_well_formed:
  assumes "well_formed_file (fs w CSV_FILE)"
  shows "well_formed_file (fs (snd (main argv env net now w)) CSV_FILE)"
  using assms
proof (rule main_preserves)
  fix jc jv df_new and w2 :: world
  assume nt: "new_table (dict_get jc ''clones'') (dict_get jv ''views'') = Inr df_new"
    and f: "fs w2 = fs w"
  have "well_formed_file (fs w2 CSV_FILE)" using assms f by simp
  with nt show "well_formed_file (fs (snd (update_csv df_new w2)) CSV_FILE)"
    by (rule well_formed_update)
qed

lemma runs_ascending:
  assumes "ascending_file (fs w CSV_FILE)" and "\<forall>a \<in> set inputs. unique_dates (r_net a)"
  shows "ascending_file (fs (runs inputs w) CSV_FILE)"
  using assms(1)
proof (rule runs_preserves)
  fix a and w' :: world
  assume "a \<in> set inputs" and "ascending_file (fs w' CSV_FILE)"
  then show "ascending_file (fs (snd (main (r_argv a) (r_env a) (r_net a) (r_now a) w')) CSV_FILE)"
    using assms(2) main_ascending by blast
qed

lemma runs_well_formed:
  assumes "well_formed_file (fs w CSV_FILE)"
  shows "well_formed_file (fs (runs inputs w) CSV_FILE)"
  using assms
proof (rule runs_preserves)
  fix a and w' :: world
  assume "well_formed_file (fs w' CSV_FILE)"
  then show "well_formed_file (fs (snd (main (r_argv a) (r_env a) (r_net a) (r_now a) w')) CSV_FILE)"
    by (rule main_well_formed)
qed

lemma unique_dates_jan: "unique_dates net_jan"
  by (auto simp add: unique_dates_def net_jan_def dict_get_def rec_def)

lemma runs_jan: "fs (runs [run_jan] w0) CSV_FILE = Some (Table table_jan)"
  by (simp add: run_jan_def main_jan csv_not_main)

text \<open>
  C5. Start from a working directory whose CSV file is absent (the first run creates it) or
  strictly ascending by date, and let every series the platform answers hold at most one
  record per date. Then after any number of runs the file is absent or a table whose date
  column holds dates only, in strictly increasing order, each date once.
\<close>

theorem dataset_strictly_ascending:
  assumes "ascending_file (fs w CSV_FILE)" and "\<forall>a \<in> set inputs. unique_dates (r_net a)"
  shows "ascending_file (fs (runs inputs w) CSV_FILE)
       \<and> (\<forall>df. fs (runs inputs w) CSV_FILE = Some (Table df) \<longrightarrow>
             list_all is_date (column df ''date'')
           \<and> sorted_wrt (<) (map day_of (column df ''date''))
           \<and> distinct (column df ''date''))"
proof -
  have a: "ascending_file (fs (runs inputs w) CSV_FILE)"
    using assms by (rule runs_ascending)
  have "list_all is_date (column df ''date'') \<and> sorted_wrt (<) (map day_of (column df ''date''))
      \<and> distinct (column df ''date'')"
    if "fs (runs inputs w) CSV_FILE = Some (Table df)" for df
  proof -
    have s: "strictly_ascending df" using a that by (simp add: ascending_file_def)
    then show ?thesis using strictly_ascending_distinct [OF s] by (simp add: strictly_ascending_def)
  qed
  then show ?thesis using a by blast
qed

theorem dataset_strictly_ascending_witness:
  "fs (runs [run_jan] w0) CSV_FILE = Some (Table table_jan)
 \<and> sorted_wrt (<) (map day_of (column table_jan ''date''))
 \<and> distinct (column table_jan ''date'')
 \<and> ascending_file (fs (runs [run_jan, run_other] w0) CSV_FILE)"
proof -
  have h1: "ascending_file (fs w0 CSV_FILE)" by (simp add: ascending_file_def w0_def)
  have h2: "\<forall>a \<in> set [run_jan]. unique_dates (r_net a)"
    by (simp add: run_jan_def unique_dates_jan)
  have h3: "\<forall>a \<in> set [run_jan, run_other]. unique_dates (r_net a)"
    by (simp add: run_jan_def run_other_def unique_dates_jan)
  show ?thesis
    using dataset_strictly_ascending [OF h1 h2] dataset_strictly_ascending [OF h1 h3] runs_jan
    by blast
qed

text \<open>
  C9. Start from a working directory whose CSV file is absent or has the fixed header with
  five cells in each row. Then after any number of runs, on the creation path and on the
  append path alike, the file is absent or has the header date, clones, clones_uniques,
  views, views_uniques in that order and five cells in each row; and it holds one row per
  date when it started absent or strictly ascending and every series the platform answers
  holds at most one record per date.
\<close>

theorem persisted_header_fixed:
  assumes "well_formed_file (fs w CSV_FILE)"
  shows "well_formed_file (fs (runs inputs w) CSV_FILE)
       \<and> (\<forall>df. fs (runs inputs w) CSV_FILE = Some (Table df) \<longrightarrow>
             columns df = [''date'', ''clones'', ''clones_uniques'', ''views'', ''views_uniques'']
           \<and> (\<forall>r \<in> set (rows df). length r = 5)
           \<and> (ascending_file (fs w CSV_FILE) \<and> (\<forall>a \<in> set inputs. unique_dates (r_net a)) \<longrightarrow>
                distinct (column df ''date'')))"
proof -
  have wf: "well_formed_file (fs (runs inputs w) CSV_FILE)"
    using assms by (rule runs_well_formed)
  have "columns df = [''date'', ''clones'', ''clones_uniques'', ''views'', ''views_uniques'']
      \<and> (\<forall>r \<in> set (rows df). length r = 5)
      \<and> (ascending_file (fs w CSV_FILE) \<and> (\<forall>a \<in> set inputs. unique_dates (r_net a)) \<longrightarrow>
            distinct (column df ''date''))"
    if f: "fs (runs inputs w) CSV_FILE = Some (Table df)" for df
  proof -
    have c: "columns df = new_columns" "\<forall>r \<in> set (rows df). length r = 5"
      using wf f by (simp_all add: well_formed_file_def list_all_iff)
    have "distinct (column df ''date'')"
      if "ascending_file (fs w CSV_FILE)" "\<forall>a \<in> set inputs. unique_dates (r_net a)"
    proof -
      have "ascending_file (fs (runs inputs w) CSV_FILE)" using that by (rule runs_ascending)
      then have "strictly_ascending df" using f by (simp add: ascending_file_def)
      then show ?thesis by (rule strictly_ascending_distinct)
    qed
    then show ?thesis using c by (simp add: new_columns_def)
  qed
  then show ?thesis using wf by blast
qed

theorem persisted_header_fixed_witness:
  "fs (runs [run_jan] w0) CSV_FILE = Some (Table table_jan)
 \<and> columns table_jan = [''date'', ''clones'', ''clones_uniques'', ''views'', ''views_uniques'']
 \<and> length (rows table_jan) = 4
 \<and> distinct (column table_jan ''date'')"
proof -
  have h1: "well_formed_file (fs w0 CSV_FILE)" by (simp add: well_formed_file_def w0_def)
  have a: "ascending_file (fs w0 CSV_FILE)" by (simp add: ascending_file_def w0_def)
  have u: "\<forall>a \<in> set [run_jan]. unique_dates (r_net a)"
    by (simp add: run_jan_def unique_dates_jan)
  have "columns table_jan = [''date'', ''clones'', ''clones_uniques'', ''views'', ''views_uniques'']
      \<and> distinct (column table_jan ''date'')"
    using persisted_header_fixed [OF h1, of "[run_jan]"] runs_jan a u by blast
  then show ?thesis using runs_jan by (simp add: table_jan_def)
qed

section \<open>Rows the file already holds\<close>

lemma update_old_later_any:
  "update_csv table_later \<lparr>fs = [CSV_FILE \<mapsto> Table table_old], trace = tr\<rparr> =
     (Inr table_merged,
      \<lparr>fs = [CSV_FILE \<mapsto> Table table_merged],
       trace = tr @ [Exists CSV_FILE, ReadFile CSV_FILE, WriteFile CSV_FILE, Print (msg_added 1)]\<rparr>)"
  by (simp add: update_csv_def path_exists_def read_csv_def log_event_def print_def write_file_def
      Let_def table_old_def table_later_def table_merged_def new_columns_def column_def
      cell_of_def is_date_or_missing_def not_isin_def concat_frames_def reindex_def sort_values_def
      date_key_def)

lemma fetch_old_later:
  "fetch_and_update_csv net_later ''o'' ''r'' ''t'' w_old =
     (Inr table_merged,
      \<lparr>fs = [CSV_FILE \<mapsto> Table table_merged],
       trace = [Request ''https://api.github.com/repos/o/r/traffic/clones'' ''t'',
                Request ''https://api.github.com/repos/o/r/traffic/views'' ''t'',
                Exists CSV_FILE, ReadFile CSV_FILE, WriteFile CSV_FILE, Print (msg_added 1)]\<rparr>)"
  by (simp add: fetch_and_update_csv_def request_json_def net_later_def dict_get_def update_later
      log_event_def w_old_def update_old_later_any BASE_API_def)

text \<open>
  C7. A merge never modifies a row the file already holds. When the file has the header
  this program writes and \<open>fetch_and_update_csv\<close> returns, the rows of the new file are the
  rows of the old file together with exactly the rows of the new-data table whose date the
  old file does not hold; so for every date of the old file the new file holds the very
  rows the old one held, with their old metrics, whatever the fetch reports for that date.
\<close>

theorem existing_rows_untouched:
  assumes "fs w CSV_FILE = Some (Table df_exist)" and "columns df_exist = new_columns"
    and "fetch_and_update_csv net owner repo token w = (Inr df, w')"
  shows "\<exists>s1 jc s2 jv df_new.
           traffic_api net (BASE_API owner repo @ ''/traffic/clones'') token = Response s1 jc
         \<and> traffic_api net (BASE_API owner repo @ ''/traffic/views'') token = Response s2 jv
         \<and> new_table (dict_get jc ''clones'') (dict_get jv ''views'') = Inr df_new
         \<and> fs w' CSV_FILE = Some (Table df) \<and> columns df = new_columns
         \<and> mset (rows df) = mset (rows df_exist)
              + mset (filter (\<lambda>r. cell_of new_columns ''date'' r \<notin> set (column df_exist ''date''))
                        (rows df_new))
         \<and> (\<forall>c \<in> set (column df_exist ''date'').
               filter_mset (\<lambda>r. cell_of new_columns ''date'' r = c) (mset (rows df))
                 = filter_mset (\<lambda>r. cell_of new_columns ''date'' r = c) (mset (rows df_exist)))"
proof -
  let ?u1 = "BASE_API owner repo @ ''/traffic/clones''"
  let ?u2 = "BASE_API owner repo @ ''/traffic/views''"
  let ?w2 = "log_event (Request ?u2 token) (log_event (Request ?u1 token) w)"
  from assms(3) show ?thesis
  proof (rule fetch_ok_cases)
    fix s1 jc s2 jv df_new
    assume a1: "traffic_api net ?u1 token = Response s1 jc"
      and a2: "traffic_api net ?u2 token = Response s2 jv"
      and nt: "new_table (dict_get jc ''clones'') (dict_get jv ''views'') = Inr df_new"
      and up: "update_csv df_new ?w2 = (Inr df, w')"
    have f: "fs ?w2 CSV_FILE = Some (Table df_exist)" using assms(1) by simp
    note r = rows_untouched_update [OF nt f assms(2) up]
    show ?thesis
      by (rule exI [of _ s1], rule exI [of _ jc], rule exI [of _ s2], rule exI [of _ jv],
          rule exI [of _ df_new]) (use a1 a2 nt r in blast)
  qed
qed

theorem existing_rows_untouched_witness:
  "fs w_old CSV_FILE = Some (Table table_old)
 \<and> columns table_old = new_columns
 \<and> fst (fetch_and_update_csv net_later ''o'' ''r'' ''t'' w_old) = Inr table_merged
 \<and> fs (snd (fetch_and_update_csv net_later ''o'' ''r'' ''t'' w_old)) CSV_FILE = Some (Table table_merged)
 \<and> mset (rows table_merged)
     = mset (rows table_old) + {#[DateC 4, NumC 40, NumC 4, NumC 400, NumC 44]#}
 \<and> filter_mset (\<lambda>r. cell_of new_columns ''date'' r = DateC 2) (mset (rows table_merged))
     = {#[DateC 2, NumC 20, NumC 2, NumC 200, NumC 22]#}"
proof -
  let ?run = "fetch_and_update_csv net_later ''o'' ''r'' ''t'' w_old"
  have h1: "fs w_old CSV_FILE = Some (Table table_old)" by (simp add: w_old_def)
  have h2: "columns table_old = new_columns" by (simp add: table_old_def)
  have f: "fst ?run = Inr table_merged" by (simp add: fetch_old_later)
  then have h3: "?run = (Inr table_merged, snd ?run)" by (simp add: prod_eq_iff)
  from existing_rows_untouched [OF h1 h2 h3] obtain s1 jc s2 jv df_new where
    a1: "traffic_api net_later (BASE_API ''o'' ''r'' @ ''/traffic/clones'') ''t'' = Response s1 jc" and
    a2: "traffic_api net_later (BASE_API ''o'' ''r'' @ ''/traffic/views'') ''t'' = Response s2 jv" and
    nt: "new_table (dict_get jc ''clones'') (dict_get jv ''views'') = Inr df_new" and
    fl: "fs (snd ?run) CSV_FILE = Some (Table table_merged)" and
    ms: "mset (rows table_merged) = mset (rows table_old)
          + mset (filter (\<lambda>r. cell_of new_columns ''date'' r \<notin> set (column table_old ''date''))
                    (rows df_new))" and
    old: "\<forall>c \<in> set (column table_old ''date'').
            filter_mset (\<lambda>r. cell_of new_columns ''date'' r = c) (mset (rows table_merged))
              = filter_mset (\<lambda>r. cell_of new_columns ''date'' r = c) (mset (rows table_old))"
    by blast
  have "dict_get jc ''clones'' = [rec 2 21 5, rec 3 31 6, rec 4 40 4]"
    using a1 by (auto simp add: net_later_def dict_get_def)
  moreover have "dict_get jv ''views'' = [rec 2 201 25, rec 3 301 36, rec 4 400 44]"
    using a2 by (auto simp add: net_later_def dict_get_def)
  ultimately have "df_new = table_later" using nt update_later by simp
  moreover have "filter (\<lambda>r. cell_of new_columns ''date'' r \<notin> set (column table_old ''date''))
                (rows table_later) = [[DateC 4, NumC 40, NumC 4, NumC 400, NumC 44]]"
    by (simp add: table_later_def table_old_def column_def new_columns_def cell_of_def)
  ultimately have r: "mset (rows table_merged)
     = mset (rows table_old) + {#[DateC 4, NumC 40, NumC 4, NumC 400, NumC 44]#}"
    using ms by simp
  have "DateC 2 \<in> set (column table_old ''date'')"
    by (simp add: table_old_def column_def new_columns_def cell_of_def)
  then have "filter_mset (\<lambda>r. cell_of new_columns ''date'' r = DateC 2) (mset (rows table_merged))
      = filter_mset (\<lambda>r. cell_of new_columns ''date'' r = DateC 2) (mset (rows table_old))"
    using old by blast
  also have "\<dots> = {#[DateC 2, NumC 20, NumC 2, NumC 200, NumC 22]#}"
    by (simp add: table_old_def new_columns_def cell_of_def)
  finally have d2: "filter_mset (\<lambda>r. cell_of new_columns ''date'' r = DateC 2) (mset (rows table_merged))
      = {#[DateC 2, NumC 20, NumC 2, NumC 200, NumC 22]#}" .
  show ?thesis using h1 h2 f fl r d2 by blast
qed

section \<open>Nothing persisted is removed\<close>

lemma rows_kept_update:
  assumes nt: "new_table clones views = Inr df_new"
    and f: "fs w CSV_FILE = Some (Table df)" and c: "columns df = new_columns"
  shows "\<exists>df'. fs (snd (update_csv df_new w)) CSV_FILE = Some (Table df')
             \<and> mset (rows df) \<subseteq># mset (rows df')"
proof -
  obtain res w' where up: "update_csv df_new w = (res, w')" by (cases "update_csv df_new w")
  show ?thesis
  proof (cases res)
    case (Inl e)
    then have "fs w' = fs w" using up update_csv_error_fs by blast
    then show ?thesis using up f by simp
  next
    case (Inr df')
    then have u: "update_csv df_new w = (Inr df', w')" using up by simp
    have "fs w' CSV_FILE = Some (Table df')" "mset (rows df') = mset (rows df)
        + mset (filter (\<lambda>r. cell_of new_columns ''date'' r \<notin> set (column df ''date'')) (rows df_new))"
      using rows_untouched_update [OF nt f c u] by simp_all
    then show ?thesis using up by simp
  qed
qed

lemma rows_kept_main:
  assumes f: "fs w CSV_FILE = Some (Table df)" and c: "columns df = new_columns"
  shows "\<exists>df'. fs (snd (main argv env net now w)) CSV_FILE = Some (Table df')
             \<and> mset (rows df) \<subseteq># mset (rows df')"
proof (rule main_preserves [where P = "\<lambda>x. \<exists>df'. x = Some (Table df') \<and> mset (rows df) \<subseteq># mset (rows df')"])
  show "\<exists>df'. fs w CSV_FILE = Some (Table df') \<and> mset (rows df) \<subseteq># mset (rows df')"
    using f by simp
next
  fix jc jv df_new and w2 :: world
  assume nt: "new_table (dict_get jc ''clones'') (dict_get jv ''views'') = Inr df_new"
    and f2: "fs w2 = fs w"
  have "fs w2 CSV_FILE = Some (Table df)" using f f2 by simp
  with nt show "\<exists>df'. fs (snd (update_csv df_new w2)) CSV_FILE = Some (Table df')
             \<and> mset (rows df) \<subseteq># mset (rows df')"
    using c by (rule rows_kept_update)
qed

lemma referrers_later:
  "fetch_referrers net_later owner repo token w =
     (Inr [], log_event (Request (BASE_API owner repo @ ''/traffic/popular/referrers'') token) w)"
  by (simp add: fetch_referrers_def request_json_def net_later_def)

lemma main_old_later:
  "fs (snd (main argv_or env_t net_later ''now'' w_old)) CSV_FILE = Some (Table table_merged)"
  by (simp add: main_def Let_def argv_or_def env_t_def fetch_old_later referrers_later
      build_dashboard_def missing_column_def table_merged_def
      new_columns_def write_file_def print_def log_event_def csv_not_main)

text \<open>
  C6. Whatever the outcome of a run, every date the CSV file held before the run is held
  after it, with at least as many rows: the dates after the run, counted with their rows,
  include those before it, and so does the set of dates. And when the file has the header
  this program writes, every row it held is a row of the file after the run: no persisted
  row is removed.
\<close>

theorem dates_append_only:
  "persisted_dates w \<subseteq># persisted_dates (snd (main argv env net now w))
 \<and> set_mset (persisted_dates w) \<subseteq> set_mset (persisted_dates (snd (main argv env net now w)))
 \<and> (\<forall>df. fs w CSV_FILE = Some (Table df) \<and> columns df = new_columns \<longrightarrow>
        (\<exists>df'. fs (snd (main argv env net now w)) CSV_FILE = Some (Table df')
               \<and> mset (rows df) \<subseteq># mset (rows df')))"
  using persisted_dates_main [of w argv env net now] rows_kept_main [of w _ argv env net now]
  by blast

theorem dates_append_only_witness:
  "fs w_old CSV_FILE = Some (Table table_old)
 \<and> columns table_old = new_columns
 \<and> fs (snd (main argv_or env_t net_later ''now'' w_old)) CSV_FILE = Some (Table table_merged)
 \<and> mset (rows table_old) \<subseteq># mset (rows table_merged)
 \<and> persisted_dates w_old \<subseteq># persisted_dates (snd (main argv_or env_t net_later ''now'' w_old))"
proof -
  let ?w = "snd (main argv_or env_t net_later ''now'' w_old)"
  have h1: "fs w_old CSV_FILE = Some (Table table_old)" by (simp add: w_old_def)
  have h2: "columns table_old = new_columns" by (simp add: table_old_def)
  note t = dates_append_only [of w_old argv_or env_t net_later "''now''"]
  from t h1 h2 obtain df' where
    "fs ?w CSV_FILE = Some (Table df')" "mset (rows table_old) \<subseteq># mset (rows df')"
    by blast
  then have r: "mset (rows table_old) \<subseteq># mset (rows table_merged)"
    using main_old_later by simp
  have d: "persisted_dates w_old \<subseteq># persisted_dates ?w" using t by blast
  show ?thesis using h1 h2 main_old_later r d by blast
qed

end
